theory Spec2Isabelle
  imports Complex_Main
begin

section \<open>Numbers\<close>

text \<open>
  The Python sources compute with floats. The embedding uses \<^typ>\<open>real\<close> for them:
  comparisons, sums and products are the exact ones, and rounding is not modelled. Every
  decimal literal of the source (\<open>0.99\<close>, \<open>0.3\<close>, \<open>66.7\<close>, ...) stands for the exact
  decimal. Step counts are Python integers, hence \<^typ>\<open>int\<close>.
\<close>

section \<open>lib/enums.py\<close>

datatype Orientation = PORT | CNTR | STBD | PORT_SIDE | STBD_SIDE

datatype Direction = FORWARD | REVERSE

datatype Velocity =
  STOP | DEAD_SLOW | SLOW | HALF | TWO_THIRDS | THREE_QUARTER | FULL | EMERGENCY | MAXIMUM

text \<open>The \<open>value\<close> property of a \<open>Velocity\<close> member (the second component of its tuple).\<close>

fun Velocity_value :: "Velocity \<Rightarrow> real" where
  "Velocity_value STOP = 0.0"
| "Velocity_value DEAD_SLOW = 20.0"
| "Velocity_value SLOW = 30.0"
| "Velocity_value HALF = 50.0"
| "Velocity_value TWO_THIRDS = 66.7"
| "Velocity_value THREE_QUARTER = 75.0"
| "Velocity_value FULL = 90.0"
| "Velocity_value EMERGENCY = 100.0"
| "Velocity_value MAXIMUM = 100.000001"

text \<open>\<open>Velocity.get_slower_than\<close>: the chain of \<open>if\<close>/\<open>elif\<close> in the source's order.\<close>

definition get_slower_than :: "real \<Rightarrow> Velocity" where
  "get_slower_than velocity =
     (if velocity < Velocity_value DEAD_SLOW then STOP
      else if velocity < Velocity_value SLOW then DEAD_SLOW
      else if velocity < Velocity_value HALF then SLOW
      else if velocity < Velocity_value TWO_THIRDS then HALF
      else if velocity < Velocity_value THREE_QUARTER then TWO_THIRDS
      else if velocity < Velocity_value FULL then THREE_QUARTER
      else FULL)"

text \<open>
  \<open>SlewRate\<close>: the member \<open>SLOW\<close> is written \<open>SLOW_RATE\<close> here, since \<open>Velocity\<close> already
  has a member of that name. Only the \<open>ratio\<close> property is used by the motor.
\<close>

datatype SlewRate =
  EXTREMELY_SLOW | VERY_SLOW | SLOWER | SLOW_RATE | NORMAL | FAST | VERY_FAST

fun ratio :: "SlewRate \<Rightarrow> real" where
  "ratio EXTREMELY_SLOW = 0.0034"
| "ratio VERY_SLOW = 0.01"
| "ratio SLOWER = 0.03"
| "ratio SLOW_RATE = 0.05"
| "ratio NORMAL = 0.08"
| "ratio FAST = 0.20"
| "ratio VERY_FAST = 0.4"

section \<open>numpy\<close>

text \<open>
  \<open>numpy.isclose(a, b, rtol, atol)\<close> on finite scalars is, by numpy's documentation,
  \<open>absolute(a - b) <= (atol + rtol * absolute(b))\<close>.
\<close>

definition isclose :: "real \<Rightarrow> real \<Rightarrow> real \<Rightarrow> real \<Rightarrow> bool" where
  "isclose a b rtol atol \<longleftrightarrow> \<bar>a - b\<bar> \<le> atol + rtol * \<bar>b\<bar>"

text \<open>
  \<open>numpy.arange(start, stop, step)\<close> has \<open>ceil((stop - start) / step)\<close> elements
  \<open>start + i * step\<close>, and none when that number is not positive.
\<close>

definition arange :: "real \<Rightarrow> real \<Rightarrow> real \<Rightarrow> real list" where
  "arange start stop step =
     map (\<lambda>i. start + real i * step) [0 ..< nat \<lceil>(stop - start) / step\<rceil>]"

section \<open>lib/pid.py: the zero test\<close>

text \<open>\<open>PID.equals_zero\<close>: \<open>numpy.isclose(value, 0.0, rtol=0.02, atol=0.0)\<close>.\<close>

definition equals_zero :: "real \<Rightarrow> bool" where
  "equals_zero v = isclose v 0.0 0.02 0.0"

section \<open>The motor driver board\<close>

text \<open>
  Modelled from the spec: the ThunderBorg driver object \<open>tb\<close> handed to the motor at
  construction is a library outside the repository. Its contract is the hardware
  boundary of the spec: a power is set per channel, and a read of a channel gives the
  power of that channel or no reading (\<open>None\<close>). The record keeps the power last set on
  each channel, every command sent (channel number and power, oldest first), the number
  of reads made so far, and \<open>tb_faults\<close>: whether each of the coming reads fails (\<open>True\<close>,
  the read gives \<open>None\<close>); once the list is used up, reads succeed.
\<close>

record thunderborg =
  tb_motor1 :: real
  tb_motor2 :: real
  tb_commands :: "(nat \<times> real) list"
  tb_reads :: nat
  tb_faults :: "bool list"

definition SetMotor1 :: "real \<Rightarrow> thunderborg \<Rightarrow> thunderborg" where
  "SetMotor1 pwr b = b\<lparr>tb_motor1 := pwr, tb_commands := tb_commands b @ [(1, pwr)]\<rparr>"

definition SetMotor2 :: "real \<Rightarrow> thunderborg \<Rightarrow> thunderborg" where
  "SetMotor2 pwr b = b\<lparr>tb_motor2 := pwr, tb_commands := tb_commands b @ [(2, pwr)]\<rparr>"

definition GetMotor1 :: "thunderborg \<Rightarrow> real option \<times> thunderborg" where
  "GetMotor1 b =
     (case tb_faults b of
        [] \<Rightarrow> (Some (tb_motor1 b), b\<lparr>tb_reads := tb_reads b + 1\<rparr>)
      | f # fs \<Rightarrow> (if f then None else Some (tb_motor1 b),
                   b\<lparr>tb_reads := tb_reads b + 1, tb_faults := fs\<rparr>))"

definition GetMotor2 :: "thunderborg \<Rightarrow> real option \<times> thunderborg" where
  "GetMotor2 b =
     (case tb_faults b of
        [] \<Rightarrow> (Some (tb_motor2 b), b\<lparr>tb_reads := tb_reads b + 1\<rparr>)
      | f # fs \<Rightarrow> (if f then None else Some (tb_motor2 b),
                   b\<lparr>tb_reads := tb_reads b + 1, tb_faults := fs\<rparr>))"

section \<open>lib/motor\_v2.py\<close>

text \<open>
  The exceptions of the modelled code. \<open>AttributeError\<close>: \<open>_max_power_ratio\<close> is read
  before \<open>set_max_power_ratio\<close> has created it (the constructor does not).
\<close>

datatype exn = ValueError | AttributeError | ZeroDivisionError | RuntimeError

text \<open>The messages that \<open>set_motor_power\<close> writes with \<open>_log.error\<close>, with their two numbers.\<close>

datatype diagnostic =
  PowerTooHigh real real
| PowerTooLow real real
| PositiveNegativeJump real real
| NegativePositiveJump real real

text \<open>
  The fields of a \<open>Motor\<close> object that the modelled methods read or write. The encoder
  callback and its fields (\<open>_steps_begin\<close>, \<open>_sample_rate\<close>, the timestamps) are left out;
  \<open>steps\<close> and \<open>velocity\<close> are what that callback last wrote.
\<close>

record Motor =
  orientation :: Orientation
  max_power_ratio :: "real option"
  accel_loop_delay_sec :: real
  motor_power_limit :: real
  steps :: int
  velocity :: real
  max_velocity :: real
  max_power :: real
  max_driving_power :: real
  interrupt :: bool

text \<open>
  What a method of the motor acts on: the object, the board, the error log, and the
  total time spent in \<open>time.sleep\<close> (seconds). Messages below the error level are not
  recorded.
\<close>

record world =
  motor :: Motor
  tb :: thunderborg
  error_log :: "diagnostic list"
  slept :: real

text \<open>
  \<open>Motor.__init__\<close>, for a configuration with the given \<open>reverse_motor_orientation\<close> and
  \<open>accel_loop_delay_sec\<close>. \<open>configure_encoder\<close> raises \<open>ValueError\<close> unless the
  orientation is \<open>PORT\<close> or \<open>STBD\<close>.
\<close>

definition Motor_init :: "bool \<Rightarrow> real \<Rightarrow> Orientation \<Rightarrow> exn + Motor" where
  "Motor_init reverse_motor_orientation accel_delay orientation0 =
     (let orn = (if reverse_motor_orientation
                 then (if orientation0 = PORT then STBD else PORT)
                 else orientation0)
      in if orn = PORT \<or> orn = STBD
         then Inr \<lparr>orientation = orn, max_power_ratio = None,
                   accel_loop_delay_sec = accel_delay, motor_power_limit = 0.99,
                   steps = 0, velocity = 0.0, max_velocity = 0.0, max_power = 0.0,
                   max_driving_power = 0.0, interrupt = False\<rparr>
         else Inl ValueError)"

definition set_max_power_ratio :: "real \<Rightarrow> world \<Rightarrow> world" where
  "set_max_power_ratio max_power_ratio0 w =
     w\<lparr>motor := (motor w)\<lparr>max_power_ratio := Some max_power_ratio0\<rparr>\<rparr>"

definition sleep :: "real \<Rightarrow> world \<Rightarrow> world" where
  "sleep secs w = w\<lparr>slept := slept w + secs\<rparr>"

text \<open>
  The source chooses the channel by \<open>if self._orientation is Orientation.PORT\<close> at each
  place where it talks to the board; the two helpers below are that choice.
\<close>

definition set_board :: "real \<Rightarrow> world \<Rightarrow> world" where
  "set_board pwr w =
     (if orientation (motor w) = PORT then w\<lparr>tb := SetMotor1 pwr (tb w)\<rparr>
      else w\<lparr>tb := SetMotor2 pwr (tb w)\<rparr>)"

definition read_board :: "world \<Rightarrow> real option \<times> world" where
  "read_board w =
     (if orientation (motor w) = PORT
      then (let (v, b) = GetMotor1 (tb w) in (v, w\<lparr>tb := b\<rparr>))
      else (let (v, b) = GetMotor2 (tb w) in (v, w\<lparr>tb := b\<rparr>)))"

text \<open>The power that the board holds for this motor's channel.\<close>

definition board_power :: "world \<Rightarrow> real" where
  "board_power w = (if orientation (motor w) = PORT then tb_motor1 (tb w) else tb_motor2 (tb w))"

text \<open>The next \<open>n\<close> reads of the board all fail.\<close>

definition no_reading :: "nat \<Rightarrow> world \<Rightarrow> bool" where
  "no_reading n w \<longleftrightarrow> take n (tb_faults (tb w)) = replicate n True"

text \<open>
  \<open>get_current_power_level\<close>: the loop \<open>while value == None and count < 20\<close>, with its
  two variables, then the default.
\<close>

function read_loop :: "real option \<Rightarrow> nat \<Rightarrow> world \<Rightarrow> real option \<times> world" where
  "read_loop val count w =
     (if val = None \<and> count < 20
      then (let (v, w1) = read_board w in read_loop v (count + 1) (sleep 0.005 w1))
      else (val, w))"
  by pat_completeness auto
termination
  by (relation "measure (\<lambda>(val, count, w). 20 - count)") auto

declare read_loop.simps [simp del]

definition get_current_power_level :: "world \<Rightarrow> real \<times> world" where
  "get_current_power_level w =
     (let (val, w1) = read_loop None 0 w
      in (case val of None \<Rightarrow> 0.0 | Some v \<Rightarrow> v, w1))"

definition is_in_motion :: "world \<Rightarrow> bool \<times> world" where
  "is_in_motion w = (let (level, w1) = get_current_power_level w in (level > 0.0, w1))"

definition log_error :: "diagnostic \<Rightarrow> world \<Rightarrow> world" where
  "log_error d w = w\<lparr>error_log := error_log w @ [d]\<rparr>"

definition set_motor_power :: "real \<Rightarrow> world \<Rightarrow> exn + world" where
  "set_motor_power power_level w =
     (if power_level > motor_power_limit (motor w)
      then Inr (log_error (PowerTooHigh power_level (motor_power_limit (motor w))) w)
      else if power_level < -1.0 * motor_power_limit (motor w)
      then Inr (log_error (PowerTooLow power_level (-1.0 * motor_power_limit (motor w))) w)
      else
        (let (current_power, w1) = get_current_power_level w
         in if \<bar>current_power - power_level\<bar> > 0.3 \<and> current_power > 0.0 \<and> power_level < 0
            then Inr (log_error (PositiveNegativeJump current_power power_level) w1)
            else if \<bar>current_power - power_level\<bar> > 0.3 \<and> current_power < 0.0 \<and> power_level > 0
            then Inr (log_error (NegativePositiveJump current_power power_level) w1)
            else
              (case max_power_ratio (motor w1) of
                 None \<Rightarrow> Inl AttributeError
               | Some r \<Rightarrow>
                   (let driving_power = power_level * r;
                        m = motor w1;
                        m1 = m\<lparr>max_power := max power_level (max_power m)\<rparr>;
                        m2 = m1\<lparr>max_driving_power := max \<bar>driving_power\<bar> (max_driving_power m1)\<rparr>
                    in Inr (set_board driving_power (w1\<lparr>motor := m2\<rparr>))))))"

definition stop :: "world \<Rightarrow> world" where
  "stop w = set_board 0.0 w"

text \<open>
  \<open>accelerate\<close>. The loop runs over \<open>numpy.arange\<close>; \<open>driving\<close> is the variable
  \<open>driving_power_level\<close>, which the code after the loop reads. The flag \<open>_interrupt\<close> is
  read from the object: another thread setting it during the ramp is not modelled.
\<close>

fun accelerate_loop :: "real list \<Rightarrow> real \<Rightarrow> real \<Rightarrow> world \<Rightarrow> exn + (real \<times> world)" where
  "accelerate_loop [] r driving w = Inr (driving, w)"
| "accelerate_loop (step_power # rest) r driving w =
     (let driving_power_level = step_power * r
      in case set_motor_power driving_power_level w of
           Inl e \<Rightarrow> Inl e
         | Inr w1 \<Rightarrow>
             if interrupt (motor w1) then Inr (driving_power_level, w1)
             else accelerate_loop rest r driving_power_level
                    (sleep (accel_loop_delay_sec (motor w1)) w1))"

text \<open>
  The value that \<open>get_current_power_level\<close> returns is a float, and \<open>accelerate\<close> tests
  it with \<open>is None\<close>: the test is the \<open>case\<close> on \<open>Some level\<close> below. The argument \<open>steps\<close>
  is not read by the body of the source either.
\<close>

definition accelerate :: "real \<Rightarrow> SlewRate \<Rightarrow> int \<Rightarrow> world \<Rightarrow> exn + world" where
  "accelerate speed slew_rate step_count w =
     (let w0 = w\<lparr>motor := (motor w)\<lparr>interrupt := False\<rparr>\<rparr>;
          (level, w1) = get_current_power_level w0
      in case Some level of
           None \<Rightarrow> Inl RuntimeError
         | Some current_power_level0 \<Rightarrow>
             (case max_power_ratio (motor w1) of
                None \<Rightarrow> Inl AttributeError
              | Some r \<Rightarrow>
                  if r = 0 then Inl ZeroDivisionError
                  else
                    (let current_power_level = current_power_level0 * (1.0 / r);
                         desired_div_100 = speed / 100
                     in if current_power_level = desired_div_100 then Inr w1
                        else
                          (let (slew_rate_ratio, overstep) =
                                 (if current_power_level < desired_div_100
                                  then (ratio slew_rate, 0.001)
                                  else (-1.0 * ratio slew_rate, -0.001))
                           in case accelerate_loop
                                     (arange current_power_level (desired_div_100 + overstep)
                                        slew_rate_ratio) r 0.0 w1 of
                                Inl e \<Rightarrow> Inl e
                              | Inr (driving_power_level, w2) \<Rightarrow>
                                  Inr (if speed = 0.0 \<and> \<bar>driving_power_level\<bar> > 0.00001
                                       then set_board 0.0 w2 else w2)))))"

definition halt :: "world \<Rightarrow> exn + world" where
  "halt w = accelerate 0.0 FAST (-1) w"

definition brake :: "world \<Rightarrow> exn + world" where
  "brake w = accelerate 0.0 SLOWER (-1) w"





section \<open>lib/pid.py\<close>

text \<open>
  The controller calls its motor through \<open>get_velocity()\<close>, \<open>get_steps()\<close>,
  \<open>get_orientation()\<close>, \<open>is_interrupted()\<close>, \<open>reset_interrupt()\<close>,
  \<open>get_current_power_level()\<close>, \<open>get_max_power_ratio()\<close> and \<open>set_motor_power()\<close>.
  The only \<open>Motor\<close> class under \<open>src/\<close> is that of \<open>motor_v2.py\<close>, which has the last
  five of these as methods but no \<open>get_velocity\<close>, \<open>get_steps\<close> or \<open>get_orientation\<close>:
  it has the properties \<open>velocity\<close>, \<open>steps\<close> and \<open>orientation\<close> instead. The three
  getters are taken to return what those properties return, that is, the fields
  \<open>velocity\<close>, \<open>steps\<close> and \<open>orientation\<close> of the record.

  The section \<open>ros:motors:pid\<close> of the configuration:
\<close>

record pid_config =
  cfg_enable_slew :: bool
  cfg_clip_limit :: real
  cfg_enable_p :: bool
  cfg_enable_i :: bool
  cfg_enable_d :: bool
  cfg_kp :: real
  cfg_ki :: real
  cfg_kd :: real

text \<open>
  The fields of a \<open>PID\<close> object. \<open>counter\<close> is the next value of \<open>itertools.count()\<close>;
  \<open>clip_max\<close> is the bound that the lambda \<open>_clip\<close> closes over; \<open>filewriter\<close> says
  whether one is set; a sample in \<open>stats_queue\<close> is (power * 100, velocity, target, steps),
  without the elapsed time of the source's record.
\<close>

record PID =
  counter :: nat
  loop_count :: nat
  last_error :: real
  sum_errors :: real
  step_limit :: int
  filewriter :: bool
  stats_queue :: "(real \<times> real \<times> real \<times> int) list"
  enable_slew :: bool
  clip_max :: real
  enable_p :: bool
  enable_i :: bool
  enable_d :: bool
  kp :: real
  ki :: real
  kd :: real

definition PID_init :: "pid_config \<Rightarrow> PID" where
  "PID_init config =
     \<lparr>counter = 0, loop_count = 0, last_error = 0.0, sum_errors = 0.0, step_limit = 0,
      filewriter = False, stats_queue = [],
      enable_slew = cfg_enable_slew config, clip_max = cfg_clip_limit config,
      enable_p = cfg_enable_p config, enable_i = cfg_enable_i config,
      enable_d = cfg_enable_d config,
      kp = cfg_kp config, ki = cfg_ki config, kd = cfg_kd config\<rparr>"

definition clip :: "real \<Rightarrow> real \<Rightarrow> real" where
  "clip c_max n =
     (let c_min = -1.0 * c_max
      in if n \<le> c_min then c_min else if n \<ge> c_max then c_max else n)"

definition is_stepping :: "Direction \<Rightarrow> PID \<Rightarrow> world \<Rightarrow> bool" where
  "is_stepping direction p w =
     (if direction = FORWARD then steps (motor w) < step_limit p
      else steps (motor w) > step_limit p)"

definition set_step_limit :: "Direction \<Rightarrow> int \<Rightarrow> PID \<Rightarrow> world \<Rightarrow> PID" where
  "set_step_limit direction n p w =
     (if direction = FORWARD then p\<lparr>step_limit := steps (motor w) + n\<rparr>
      else p\<lparr>step_limit := steps (motor w) - n\<rparr>)"

text \<open>The odometry sample that \<open>_compute\<close> appends when a file writer is set.\<close>

definition capture :: "real \<Rightarrow> real \<Rightarrow> real \<Rightarrow> world \<Rightarrow> PID \<Rightarrow> PID" where
  "capture power_level current_velocity target_velocity w p =
     (if filewriter p
      then p\<lparr>stats_queue := stats_queue p @
                [(power_level * 100.0, current_velocity, target_velocity, steps (motor w))]\<rparr>
      else p)"

text \<open>
  \<open>PID._compute\<close>. It returns \<open>_changed\<close>, with the controller and the world as it
  leaves them. \<open>1.0 / ratio\<close> raises \<open>ZeroDivisionError\<close> on a zero ratio.
\<close>

definition compute :: "real \<Rightarrow> PID \<times> world \<Rightarrow> exn + (bool \<times> PID \<times> world)" where
  "compute target_velocity pw =
     (let (p0, w) = pw;
          p = p0\<lparr>counter := counter p0 + 1, loop_count := counter p0\<rparr>;
          current_velocity = velocity (motor w);
          error = target_velocity - current_velocity;
          (level, w1) = get_current_power_level w
      in case max_power_ratio (motor w1) of
           None \<Rightarrow> Inl AttributeError
         | Some r \<Rightarrow>
             if r = 0 then Inl ZeroDivisionError
             else
               (let current_power = level * (1.0 / r)
                in if equals_zero error
                   then
                     (case (if target_velocity = 0.0 then set_motor_power 0.0 w1 else Inr w1) of
                        Inl e \<Rightarrow> Inl e
                      | Inr w2 \<Rightarrow>
                          Inr (False,
                               capture current_power current_velocity target_velocity w2
                                 (p\<lparr>last_error := 0.0\<rparr>),
                               w2))
                   else
                     (let p_diff = (if enable_p p then kp p * error else 0.0);
                          i_diff = (if enable_i p then ki p * sum_errors p else 0.0);
                          d_diff = (if enable_d p then kd p * last_error p else 0.0);
                          output = p_diff + i_diff + d_diff;
                          clipped_output = clip (clip_max p) output;
                          power_level = current_power + clipped_output
                      in case set_motor_power power_level w1 of
                           Inl e \<Rightarrow> Inl e
                         | Inr w2 \<Rightarrow>
                             Inr (True,
                                  capture power_level current_velocity target_velocity w2
                                    (p\<lparr>last_error := error,
                                       sum_errors := sum_errors p + error\<rparr>),
                                  w2))))"

text \<open>
  What the surroundings do during one pass of the loop of \<open>step_to\<close>: the answer of
  \<open>f_is_enabled()\<close> at the loop test; the step count and the velocity that the encoder
  callback has written by then (they stay as they are during the pass); the value that
  the slew limiter returns (\<open>lib/slew.py\<close> is outside \<open>src/\<close>; read only when slewing is
  enabled); and whether another thread calls \<open>interrupt()\<close> before the pass ends.
\<close>

record tick =
  t_enabled :: bool
  t_steps :: int
  t_velocity :: real
  t_slewed :: real
  t_interrupt :: bool

text \<open>
  The loop of \<open>step_to\<close> (the source writes it once per direction, with the same body).
  The result is \<open>None\<close> when the loop is still running after the last pass supplied.
\<close>

fun step_loop :: "real \<Rightarrow> Direction \<Rightarrow> tick list \<Rightarrow> PID \<times> world \<Rightarrow> (exn + PID \<times> world) option" where
  "step_loop target direction [] (p, w) = None"
| "step_loop target direction (t # ts) (p, w) =
     (let w0 = w\<lparr>motor := (motor w)\<lparr>steps := t_steps t, velocity := t_velocity t\<rparr>\<rparr>
      in if \<not> (t_enabled t \<and> is_stepping direction p w0) then Some (Inr (p, w0))
         else
           (case compute (if enable_slew p then t_slewed t else target) (p, w0) of
              Inl e \<Rightarrow> Some (Inl e)
            | Inr (changed, p1, w1) \<Rightarrow>
                if \<not> changed \<and> velocity (motor w1) = 0.0 \<and> target = 0.0 \<and> step_limit p1 > 0
                then Some (Inr (p1, w1))
                else
                  (let w2 = w1\<lparr>motor := (motor w1)\<lparr>interrupt :=
                                   interrupt (motor w1) \<or> t_interrupt t\<rparr>\<rparr>
                   in if interrupt (motor w2) then Some (Inr (p1, w2))
                      else step_loop target direction ts (p1, w2))))"

text \<open>
  \<open>PID.step_to\<close>. Its argument is a \<open>Velocity\<close> and its direction one of the two members
  of \<open>Direction\<close>, so the two \<open>raise\<close> statements on other arguments have no input here.
  Starting and resetting the slew limiter, and the elapsed time, are not modelled.
\<close>

definition step_to ::
  "Velocity \<Rightarrow> Direction \<Rightarrow> SlewRate \<Rightarrow> tick list \<Rightarrow> PID \<times> world \<Rightarrow> (exn + PID \<times> world) option" where
  "step_to target_velocity direction slew_rate ticks pw =
     (let target = (if direction = FORWARD then Velocity_value target_velocity
                    else -1.0 * Velocity_value target_velocity)
      in case step_loop target direction ticks pw of
           None \<Rightarrow> None
         | Some (Inl e) \<Rightarrow> Some (Inl e)
         | Some (Inr (p1, w1)) \<Rightarrow>
             Some (Inr (p1, w1\<lparr>motor := (motor w1)\<lparr>interrupt := False\<rparr>\<rparr>)))"

text \<open>
  The errors of the passes of one run of \<open>step_to\<close>, as the surroundings determine
  them: the error of a pass is its target minus the velocity, and the passes end as the
  loop does (loop test, the stationary break, an interrupt). \<open>intr\<close> is the interrupt
  flag on entry.
\<close>

fun run_errors :: "real \<Rightarrow> Direction \<Rightarrow> int \<Rightarrow> bool \<Rightarrow> bool \<Rightarrow> tick list \<Rightarrow> real list" where
  "run_errors target direction limit slew intr [] = []"
| "run_errors target direction limit slew intr (t # ts) =
     (if \<not> (t_enabled t \<and>
              (if direction = FORWARD then t_steps t < limit else t_steps t > limit))
      then []
      else
        (let e = (if slew then t_slewed t else target) - t_velocity t
         in e # (if (e = 0 \<and> t_velocity t = 0.0 \<and> target = 0.0 \<and> limit > 0)
                    \<or> intr \<or> t_interrupt t
                 then []
                 else run_errors target direction limit slew False ts)))"

section \<open>A motor on the bench\<close>

text \<open>
  The object that \<open>Motor.__init__\<close> builds for the port side, with an acceleration loop
  delay of 0.10 s and no reversal of the orientation.
\<close>

definition port_motor :: Motor where
  "port_motor =
     \<lparr>orientation = PORT, max_power_ratio = None, accel_loop_delay_sec = 0.10,
      motor_power_limit = 0.99, steps = 0, velocity = 0.0, max_velocity = 0.0,
      max_power = 0.0, max_driving_power = 0.0, interrupt = False\<rparr>"

text \<open>
  That motor after \<open>set_max_power_ratio(r)\<close>, on a board whose channel 1 holds the power
  \<open>pwr\<close> and whose coming reads fail as \<open>faults\<close> says.
\<close>

definition bench :: "real \<Rightarrow> real \<Rightarrow> bool list \<Rightarrow> world" where
  "bench r pwr faults =
     set_max_power_ratio r
       \<lparr>motor = port_motor,
        tb = \<lparr>tb_motor1 = pwr, tb_motor2 = 0.0, tb_commands = [], tb_reads = 0,
              tb_faults = faults\<rparr>,
        error_log = [], slept = 0.0\<rparr>"


text \<open>
  The bench with the power 0.5 on channel 1, after 20 failed reads (0.1 s of sleep).
\<close>

definition unread_bench :: world where
  "unread_bench = \<lparr>motor = port_motor\<lparr>max_power_ratio := Some 1\<rparr>,
         tb = \<lparr>tb_motor1 = 0.5, tb_motor2 = 0.0, tb_commands = [], tb_reads = 20, tb_faults = []\<rparr>,
         error_log = [], slept = 0.1\<rparr>"

text \<open>A configuration of the controller for the bench: all three terms on, no slewing.\<close>

definition bench_config :: pid_config where
  "bench_config =
     \<lparr>cfg_enable_slew = False, cfg_clip_limit = 0.5, cfg_enable_p = True,
      cfg_enable_i = True, cfg_enable_d = True, cfg_kp = 0.01, cfg_ki = 0.001, cfg_kd = 0.001\<rparr>"

text \<open>
  A pass during which the loop is enabled, the encoder has counted \<open>n\<close> steps and
  measured the velocity \<open>v\<close>, and nobody interrupts.
\<close>

definition pass :: "int \<Rightarrow> real \<Rightarrow> tick" where
  "pass n v = \<lparr>t_enabled = True, t_steps = n, t_velocity = v, t_slewed = 0.0, t_interrupt = False\<rparr>"

text \<open>
  Two runs in a row on the bench, each after \<open>set_step_limit(FORWARD, 10)\<close>: the second
  starts from the controller and the world that the first has left.
\<close>

definition first_run :: "(exn + PID \<times> world) option" where
  "first_run =
     step_to SLOW FORWARD NORMAL [pass 0 0.0, pass 10 20.0]
       (set_step_limit FORWARD 10 (PID_init bench_config) (bench 1 0.0 []), bench 1 0.0 [])"

definition second_run :: "(exn + PID \<times> world) option" where
  "second_run =
     (case first_run of
        Some (Inr (p, w)) \<Rightarrow>
          step_to SLOW FORWARD NORMAL [pass 10 0.0, pass 20 20.0]
            (set_step_limit FORWARD 10 p w, w)
      | _ \<Rightarrow> None)"

text \<open>The controller as the two runs leave it.\<close>

definition after_first_run :: PID where
  "after_first_run =
     (PID_init bench_config)\<lparr>step_limit := 10, counter := 1, loop_count := 0,
                               last_error := 30, sum_errors := 30\<rparr>"

definition after_second_run :: PID where
  "after_second_run =
     (PID_init bench_config)\<lparr>step_limit := 20, counter := 2, loop_count := 1,
                               last_error := 30, sum_errors := 60\<rparr>"


section \<open>Properties of the enumerations and of the zero test\<close>

lemma equals_zero_iff: "equals_zero x \<longleftrightarrow> x = 0"
  by (simp add: equals_zero_def isclose_def)

text \<open>
  C1. The claim has \<open>equals_zero(0.001)\<close> true. The relative tolerance of
  \<open>numpy.isclose\<close> is taken relative to the second argument, which is \<open>0.0\<close>, and the
  absolute tolerance is \<open>0.0\<close>: the bound is \<open>0.0 + 0.02 * 0.0\<close>, so the test accepts
  \<open>0.0\<close> alone. At \<open>0.001\<close> the code answers false (and at \<open>5.0\<close> false, as claimed).
\<close>

theorem equals_zero_small_value_rejected:
  "equals_zero 0.001 = False \<and> equals_zero 5.0 = False \<and> equals_zero 0.0 = True"
  by (simp add: equals_zero_def isclose_def)

text \<open>
  C7 as stated fails at the setpoint values themselves: no named setpoint lies strictly
  below \<open>0.0\<close>, and \<open>get_slower_than\<close> answers \<open>STOP\<close> there, whose value is \<open>0.0\<close>.
\<close>

theorem get_slower_than_floor_counterexample:
  "get_slower_than 0.0 = STOP \<and> \<not> Velocity_value (get_slower_than 0.0) < 0.0"
  by (simp add: get_slower_than_def)

lemma get_slower_than_at_setpoint:
  "get_slower_than 20.0 = DEAD_SLOW" "get_slower_than 50.0 = HALF"
  by (simp_all add: get_slower_than_def)

text \<open>
  C7, amended. For \<open>x\<close> in 0-100 that is not the value of a setpoint between \<open>DEAD_SLOW\<close>
  and \<open>FULL\<close>: at \<open>x = 0\<close> the answer is \<open>STOP\<close>; otherwise the answer is a setpoint
  strictly below \<open>x\<close>, and no named setpoint strictly below \<open>x\<close> has a larger value.
\<close>

theorem get_slower_than_nearest_below:
  assumes "0 \<le> x" and "x \<le> 100"
    and "x \<notin> {20.0, 30.0, 50.0, 66.7, 75.0, 90.0}"
  shows "if x = 0 then get_slower_than x = STOP
         else Velocity_value (get_slower_than x) < x \<and>
              (\<forall>v. Velocity_value v < x \<longrightarrow> Velocity_value v \<le> Velocity_value (get_slower_than x))"
proof (cases "x = 0")
  case True
  then show ?thesis by (simp add: get_slower_than_def)
next
  case False
  with assms have pos: "0 < x" by simp
  have below: "Velocity_value (get_slower_than x) < x"
    using pos assms(3) by (auto simp: get_slower_than_def)
  have best: "Velocity_value v \<le> Velocity_value (get_slower_than x)"
    if "Velocity_value v < x" for v
    using that assms(2) by (cases v) (auto simp: get_slower_than_def)
  from False below best show ?thesis by simp
qed

theorem get_slower_than_nearest_below_witness:
  "get_slower_than 45.0 = SLOW \<and> Velocity_value SLOW = 30.0 \<and> get_slower_than 10.0 = STOP
   \<and> Velocity_value (get_slower_than 45.0) < 45.0
   \<and> Velocity_value DEAD_SLOW \<le> Velocity_value (get_slower_than 45.0)"
proof -
  have h: "(45.0::real) \<notin> {20.0, 30.0, 50.0, 66.7, 75.0, 90.0}" by simp
  have "if (45.0::real) = 0 then get_slower_than 45.0 = STOP
        else Velocity_value (get_slower_than 45.0) < 45.0 \<and>
             (\<forall>v. Velocity_value v < 45.0 \<longrightarrow> Velocity_value v \<le> Velocity_value (get_slower_than 45.0))"
    using get_slower_than_nearest_below [of "45.0", OF _ _ h] by simp
  then have "Velocity_value (get_slower_than 45.0) < 45.0"
    and a: "\<forall>v. Velocity_value v < 45.0 \<longrightarrow> Velocity_value v \<le> Velocity_value (get_slower_than 45.0)"
    by simp_all
  moreover from a have "Velocity_value DEAD_SLOW < 45.0 \<longrightarrow>
      Velocity_value DEAD_SLOW \<le> Velocity_value (get_slower_than 45.0)" by (rule spec)
  then have "Velocity_value DEAD_SLOW \<le> Velocity_value (get_slower_than 45.0)" by simp
  ultimately show ?thesis by (simp add: get_slower_than_def)
qed

section \<open>Reading the board\<close>

lemma read_board_frame:
  "read_board w = (v, w1) \<Longrightarrow>
     motor w1 = motor w \<and> error_log w1 = error_log w \<and> slept w1 = slept w
     \<and> tb_motor1 (tb w1) = tb_motor1 (tb w) \<and> tb_motor2 (tb w1) = tb_motor2 (tb w)
     \<and> tb_commands (tb w1) = tb_commands (tb w) \<and> tb_reads (tb w1) = tb_reads (tb w) + 1"
  by (auto simp: read_board_def GetMotor1_def GetMotor2_def split: if_splits list.splits)

lemma read_board_value:
  "read_board w = (v, w1) \<Longrightarrow>
     (case tb_faults (tb w) of
        [] \<Rightarrow> v = Some (board_power w) \<and> tb_faults (tb w1) = []
      | f # fs \<Rightarrow> v = (if f then None else Some (board_power w)) \<and> tb_faults (tb w1) = fs)"
  by (auto simp: read_board_def GetMotor1_def GetMotor2_def board_power_def split: if_splits list.splits)

lemma read_loop_step:
  "count < 20 \<Longrightarrow> read_board w = (v1, w1) \<Longrightarrow>
     read_loop None count w = read_loop v1 (count + 1) (sleep 0.005 w1)"
  by (subst read_loop.simps) simp

lemma read_loop_done:
  "val \<noteq> None \<or> \<not> count < 20 \<Longrightarrow> read_loop val count w = (val, w)"
  by (subst read_loop.simps) auto

lemma read_loop_frame:
  "read_loop val count w = (v, w') \<Longrightarrow>
     motor w' = motor w \<and> error_log w' = error_log w
     \<and> tb_motor1 (tb w') = tb_motor1 (tb w) \<and> tb_motor2 (tb w') = tb_motor2 (tb w)
     \<and> tb_commands (tb w') = tb_commands (tb w)"
proof (induction val count w rule: read_loop.induct)
  case (1 val count w)
  show ?case
  proof (cases "val = None \<and> count < 20")
    case True
    obtain v1 w1 where rb: "read_board w = (v1, w1)" by (cases "read_board w")
    from True rb "1.prems" have rec: "read_loop v1 (count + 1) (sleep 0.005 w1) = (v, w')"
      using read_loop_step [of count w v1 w1] by simp
    from "1.IH" [OF True rb [symmetric] refl rec] read_board_frame [OF rb]
    show ?thesis by (simp add: sleep_def)
  next
    case False
    with "1.prems" show ?thesis using read_loop_done [of val count w] by auto
  qed
qed

lemma no_reading_Suc:
  "no_reading (Suc k) w \<longleftrightarrow>
     (\<exists>fs. tb_faults (tb w) = True # fs \<and> take k fs = replicate k True)"
  by (cases "tb_faults (tb w)") (auto simp: no_reading_def)

lemma no_reading_0: "no_reading 0 w"
  by (simp add: no_reading_def)

lemma read_loop_value:
  "read_loop None count w = (v, w') \<Longrightarrow>
     v = (if no_reading (20 - count) w then None else Some (board_power w))"
proof (induction "None :: real option" count w rule: read_loop.induct)
  case (1 count w)
  show ?case
  proof (cases "count < 20")
    case True
    obtain v1 w1 where rb: "read_board w = (v1, w1)" by (cases "read_board w")
    from True rb "1.prems" have rec: "read_loop v1 (count + 1) (sleep 0.005 w1) = (v, w')"
      using read_loop_step [of count w v1 w1] by simp
    from True obtain k where k: "20 - count = Suc k" "20 - (count + 1) = k"
      by (cases "20 - count") auto
    have bp: "board_power (sleep 0.005 w1) = board_power w"
      using read_board_frame [OF rb] by (simp add: board_power_def sleep_def)
    have fl: "tb_faults (tb (sleep 0.005 w1)) = tb_faults (tb w1)" by (simp add: sleep_def)
    show ?thesis
    proof (cases v1)
      case None
      with rb read_board_value [OF rb] obtain fs
        where fs: "tb_faults (tb w) = True # fs" "tb_faults (tb w1) = fs"
        by (auto split: list.splits if_splits)
      from rb None have rb': "(None, w1) = read_board w" by simp
      from rec None have rec': "read_loop None (count + 1) (sleep 0.005 w1) = (v, w')" by simp
      from True have g: "(None :: real option) = None \<and> count < 20" by simp
      from "1.hyps" [OF g refl rb' rec']
      have "v = (if no_reading (20 - (count + 1)) (sleep 0.005 w1)
                 then None else Some (board_power (sleep 0.005 w1)))" .
      moreover have "no_reading k (sleep 0.005 w1) = no_reading (Suc k) w"
        using fs fl by (simp add: no_reading_Suc) (simp add: no_reading_def)
      ultimately show ?thesis using k bp by simp
    next
      case (Some x)
      with rec have "v = Some x" using read_loop_done [of v1 "count + 1" "sleep 0.005 w1"] by simp
      moreover from Some read_board_value [OF rb] have "x = board_power w"
        "\<not> no_reading (Suc k) w"
        by (auto simp: no_reading_Suc split: list.splits if_splits)
      ultimately show ?thesis using k by simp
    qed
  next
    case False
    with "1.prems" show ?thesis using read_loop_done [of None count w]
      by (auto simp: no_reading_0)
  qed
qed

lemma get_current_power_level_frame:
  "get_current_power_level w = (x, w1) \<Longrightarrow>
     motor w1 = motor w \<and> error_log w1 = error_log w
     \<and> tb_motor1 (tb w1) = tb_motor1 (tb w) \<and> tb_motor2 (tb w1) = tb_motor2 (tb w)
     \<and> tb_commands (tb w1) = tb_commands (tb w)"
proof -
  assume g: "get_current_power_level w = (x, w1)"
  obtain v w' where r: "read_loop None 0 w = (v, w')" by (cases "read_loop None 0 w")
  with g have w1: "w1 = w'" by (simp add: get_current_power_level_def)
  from read_loop_frame [OF r] w1 show ?thesis by simp
qed

lemma get_current_power_level_value:
  "fst (get_current_power_level w) = (if no_reading 20 w then 0.0 else board_power w)"
proof -
  obtain v w' where r: "read_loop None 0 w = (v, w')" by (cases "read_loop None 0 w")
  from read_loop_value [OF r] have "v = (if no_reading 20 w then None else Some (board_power w))"
    by simp
  with r show ?thesis by (simp add: get_current_power_level_def)
qed

lemma read_loop_attempts:
  "read_loop val count w = (v, w') \<Longrightarrow> count \<le> 20 \<Longrightarrow>
     \<exists>k. k \<le> 20 - count \<and> tb_reads (tb w') = tb_reads (tb w) + k
         \<and> slept w' = slept w + 0.005 * real k
         \<and> (v = None \<longrightarrow> k = 20 - count)"
proof (induction val count w rule: read_loop.induct)
  case (1 val count w)
  show ?case
  proof (cases "val = None \<and> count < 20")
    case True
    obtain v1 w1 where rb: "read_board w = (v1, w1)" by (cases "read_board w")
    from True rb "1.prems" have rec: "read_loop v1 (count + 1) (sleep 0.005 w1) = (v, w')"
      using read_loop_step [of count w v1 w1] by simp
    from True have le: "count + 1 \<le> 20" by simp
    from "1.IH" [OF True rb [symmetric] refl rec le]
    obtain k where k: "k \<le> 20 - (count + 1)"
      "tb_reads (tb w') = tb_reads (tb (sleep 0.005 w1)) + k"
      "slept w' = slept (sleep 0.005 w1) + 0.005 * real k"
      "v = None \<longrightarrow> k = 20 - (count + 1)" by blast
    from read_board_frame [OF rb]
    have f: "tb_reads (tb (sleep 0.005 w1)) = tb_reads (tb w) + 1"
      "slept (sleep 0.005 w1) = slept w + 0.005"
      by (simp_all add: sleep_def)
    have "Suc k \<le> 20 - count" using k(1) True by arith
    moreover have "tb_reads (tb w') = tb_reads (tb w) + Suc k" using k(2) f(1) by simp
    moreover have "slept w' = slept w + 0.005 * real (Suc k)" using k(3) f(2) by (simp add: algebra_simps)
    moreover have "v = None \<longrightarrow> Suc k = 20 - count" using k(4) True by arith
    ultimately show ?thesis by blast
  next
    case False
    with "1.prems" have "v = val" "w' = w" using read_loop_done [of val count w] by auto
    with False "1.prems"(2) show ?thesis by auto
  qed
qed

lemma get_current_power_level_attempts:
  "get_current_power_level w = (x, w1) \<Longrightarrow>
     \<exists>k. k \<le> 20 \<and> tb_reads (tb w1) = tb_reads (tb w) + k
         \<and> slept w1 = slept w + 0.005 * real k
         \<and> (no_reading 20 w \<longrightarrow> x = 0.0 \<and> k = 20)"
proof -
  assume g: "get_current_power_level w = (x, w1)"
  obtain v w' where r: "read_loop None 0 w = (v, w')" by (cases "read_loop None 0 w")
  with g have w1: "w1 = w'" and x: "x = (case v of None \<Rightarrow> 0.0 | Some y \<Rightarrow> y)"
    by (simp_all add: get_current_power_level_def)
  from read_loop_attempts [OF r] obtain k where k: "k \<le> 20"
    "tb_reads (tb w') = tb_reads (tb w) + k" "slept w' = slept w + 0.005 * real k"
    "v = None \<longrightarrow> k = 20" by auto
  from read_loop_value [OF r]
  have "no_reading 20 w \<longrightarrow> v = None" by simp
  with k w1 x show ?thesis by auto
qed


lemma board_power_frame:
  "motor w1 = motor w \<Longrightarrow> tb_motor1 (tb w1) = tb_motor1 (tb w) \<Longrightarrow>
   tb_motor2 (tb w1) = tb_motor2 (tb w) \<Longrightarrow> board_power w1 = board_power w"
  by (simp add: board_power_def)

text \<open>
  C9. \<open>is_in_motion\<close> answers true exactly when the power level that
  \<open>get_current_power_level\<close> reports is strictly positive, that is, when one of the 20
  reads succeeds and the board holds a positive power for this motor. On a motor driven
  astern (negative power on the board) it answers false.
\<close>

theorem is_in_motion_positive_only:
  "(fst (is_in_motion w) \<longleftrightarrow> fst (get_current_power_level w) > 0.0)
   \<and> (fst (is_in_motion w) \<longleftrightarrow>
        \<not> no_reading 20 w \<and> board_power w > 0.0)
   \<and> (board_power w < 0.0 \<longrightarrow> fst (is_in_motion w) = False)"
proof -
  have a: "fst (is_in_motion w) \<longleftrightarrow> fst (get_current_power_level w) > 0.0"
    by (cases "get_current_power_level w") (simp add: is_in_motion_def)
  then show ?thesis by (auto simp: get_current_power_level_value)
qed

text \<open>
  C2, amended. The current power that \<open>set_motor_power\<close> compares with is the power on
  the board when one of the 20 reads succeeds, and 0.0 when none does. When that power
  and the requested power have opposite signs and differ by more than 0.3,
  \<open>set_motor_power\<close> returns after logging one error: the motor object is as before, no
  command has been sent to the board, and the board holds the powers it held.
\<close>

theorem set_motor_power_rejects_reversal:
  assumes cur: "current_power = (if no_reading 20 w then 0.0 else board_power w)"
    and opp: "(current_power > 0 \<and> power_level < 0) \<or> (current_power < 0 \<and> power_level > 0)"
    and jump: "\<bar>current_power - power_level\<bar> > 0.3"
  shows "\<exists>w' d. set_motor_power power_level w = Inr w'
           \<and> error_log w' = error_log w @ [d]
           \<and> motor w' = motor w
           \<and> tb_commands (tb w') = tb_commands (tb w)
           \<and> tb_motor1 (tb w') = tb_motor1 (tb w) \<and> tb_motor2 (tb w') = tb_motor2 (tb w)"
proof -
  obtain x w1 where g: "get_current_power_level w = (x, w1)"
    by (cases "get_current_power_level w")
  with get_current_power_level_value [of w] cur have x: "x = current_power" by simp
  from g x opp jump get_current_power_level_frame [OF g] show ?thesis
    by (auto simp: set_motor_power_def log_error_def)
qed

section \<open>Setting the power\<close>

lemma port_motor_constructed: "Motor_init False 0.10 PORT = Inr port_motor"
  by (simp add: Motor_init_def port_motor_def)

lemma set_motor_power_accepted:
  assumes g: "get_current_power_level w = (cur, w1)"
    and lim: "\<bar>p\<bar> \<le> motor_power_limit (motor w)"
    and j1: "\<not> (\<bar>cur - p\<bar> > 0.3 \<and> cur > 0 \<and> p < 0)"
    and j2: "\<not> (\<bar>cur - p\<bar> > 0.3 \<and> cur < 0 \<and> p > 0)"
    and r: "max_power_ratio (motor w) = Some r"
  shows "set_motor_power p w =
           Inr (set_board (p * r)
                  (w1\<lparr>motor := (motor w)\<lparr>max_power := max p (max_power (motor w)),
                       max_driving_power := max \<bar>p * r\<bar> (max_driving_power (motor w))\<rparr>\<rparr>))"
proof -
  from get_current_power_level_frame [OF g] have m: "motor w1 = motor w" by simp
  from lim have "\<not> p > motor_power_limit (motor w)" "\<not> p < - motor_power_limit (motor w)"
    by linarith+
  with g j1 j2 r m show ?thesis
    by (auto simp: set_motor_power_def Let_def)
qed

lemma set_motor_power_cases:
  assumes s: "set_motor_power p w = Inr w'"
  obtains (rejected) d w1 where "w' = log_error d w1" "motor w1 = motor w"
      "tb_motor1 (tb w1) = tb_motor1 (tb w)" "tb_motor2 (tb w1) = tb_motor2 (tb w)"
      "tb_commands (tb w1) = tb_commands (tb w)" "error_log w1 = error_log w"
  | (accepted) r cur w1 where "get_current_power_level w = (cur, w1)"
      "max_power_ratio (motor w) = Some r" "\<bar>p\<bar> \<le> motor_power_limit (motor w)"
      "w' = set_board (p * r)
              (w1\<lparr>motor := (motor w)\<lparr>max_power := max p (max_power (motor w)),
                   max_driving_power := max \<bar>p * r\<bar> (max_driving_power (motor w))\<rparr>\<rparr>)"
proof -
  obtain cur w1 where g: "get_current_power_level w = (cur, w1)"
    by (cases "get_current_power_level w")
  note f = get_current_power_level_frame [OF g]
  show thesis
  proof (cases "\<bar>p\<bar> \<le> motor_power_limit (motor w)")
    case False
    then have "p > motor_power_limit (motor w) \<or> p < - motor_power_limit (motor w)" by linarith
    with s obtain d where "w' = log_error d w"
      by (auto simp: set_motor_power_def split: if_splits)
    then show thesis using rejected [of d w] by simp
  next
    case lim: True
    then have nl: "\<not> p > motor_power_limit (motor w)" "\<not> p < - motor_power_limit (motor w)"
      by linarith+
    show thesis
    proof (cases "(\<bar>cur - p\<bar> > 0.3 \<and> cur > 0 \<and> p < 0) \<or> (\<bar>cur - p\<bar> > 0.3 \<and> cur < 0 \<and> p > 0)")
      case True
      with s g nl obtain d where "w' = log_error d w1"
        by (auto simp: set_motor_power_def split: if_splits)
      then show thesis using rejected [of d w1] f by simp
    next
      case False
      then have j: "\<not> (\<bar>cur - p\<bar> > 0.3 \<and> cur > 0 \<and> p < 0)"
        "\<not> (\<bar>cur - p\<bar> > 0.3 \<and> cur < 0 \<and> p > 0)" by auto
      show thesis
      proof (cases "max_power_ratio (motor w)")
        case None
        with s g nl j f show thesis by (auto simp: set_motor_power_def split: if_splits)
      next
        case (Some r)
        from set_motor_power_accepted [OF g lim j Some] s accepted [OF g Some lim]
        show thesis by simp
      qed
    qed
  qed
qed

lemma board_power_set_board: "board_power (set_board x w) = x"
  by (simp add: board_power_def set_board_def SetMotor1_def SetMotor2_def)

lemma set_board_frame:
  "motor (set_board x w) = motor w" "error_log (set_board x w) = error_log w"
  "slept (set_board x w) = slept w"
  "tb_commands (tb (set_board x w)) =
     tb_commands (tb w) @ [(if orientation (motor w) = PORT then 1 else 2, x)]"
  by (simp_all add: set_board_def SetMotor1_def SetMotor2_def)

lemma board_power_log_error: "board_power (log_error d w) = board_power w"
  by (simp add: board_power_def log_error_def)

lemma bench_simps:
  "motor (bench r pwr fs) = port_motor\<lparr>max_power_ratio := Some r\<rparr>"
  "tb (bench r pwr fs) = \<lparr>tb_motor1 = pwr, tb_motor2 = 0.0, tb_commands = [], tb_reads = 0,
              tb_faults = fs\<rparr>"
  "error_log (bench r pwr fs) = []" "slept (bench r pwr fs) = 0"
  "board_power (bench r pwr fs) = pwr"
  by (simp_all add: bench_def set_max_power_ratio_def board_power_def port_motor_def)

lemma port_motor_simps:
  "orientation port_motor = PORT" "motor_power_limit port_motor = 0.99"
  "max_power port_motor = 0" "max_driving_power port_motor = 0"
  "interrupt port_motor = False" "accel_loop_delay_sec port_motor = 0.10"
  by (simp_all add: port_motor_def)

lemma no_reading_Nil: "0 < n \<Longrightarrow> tb_faults (tb w) = [] \<Longrightarrow> \<not> no_reading n w"
  by (simp add: no_reading_def)

text \<open>The example of C2 on a board that can be read: current power +0.5, requested power -0.2.\<close>

theorem set_motor_power_rejects_reversal_witness:
  "no_reading 20 (bench 1 0.5 []) = False \<and> board_power (bench 1 0.5 []) = 0.5
   \<and> (\<exists>w' d. set_motor_power (- 0.2) (bench 1 0.5 []) = Inr w'
           \<and> error_log w' = error_log (bench 1 0.5 []) @ [d]
           \<and> motor w' = motor (bench 1 0.5 [])
           \<and> tb_commands (tb w') = tb_commands (tb (bench 1 0.5 []))
           \<and> tb_motor1 (tb w') = tb_motor1 (tb (bench 1 0.5 []))
           \<and> tb_motor2 (tb w') = tb_motor2 (tb (bench 1 0.5 [])))"
proof -
  have nr: "no_reading 20 (bench 1 0.5 []) = False"
    by (simp add: no_reading_Nil bench_simps)
  have bp: "board_power (bench 1 0.5 []) = 0.5" by (simp add: bench_simps)
  have cur: "(0.5::real) = (if no_reading 20 (bench 1 0.5 []) then 0.0
                            else board_power (bench 1 0.5 []))"
    using nr bp by simp
  have opp: "((0.5::real) > 0 \<and> (- 0.2 :: real) < 0) \<or> ((0.5::real) < 0 \<and> (- 0.2 :: real) > 0)"
    by simp
  have jump: "\<bar>(0.5::real) - (- 0.2)\<bar> > 0.3" by simp
  from set_motor_power_rejects_reversal [OF cur opp jump] nr bp show ?thesis by simp
qed

theorem is_in_motion_positive_only_witness:
  "board_power (bench 1 (- 0.5) []) < 0.0 \<and> fst (is_in_motion (bench 1 (- 0.5) [])) = False"
  using is_in_motion_positive_only [of "bench 1 (- 0.5) []"] by (auto simp: bench_simps)

lemma trackers_monotone:
  assumes "set_motor_power p w = Inr w'"
  shows "max_power (motor w) \<le> max_power (motor w')
         \<and> max_driving_power (motor w) \<le> max_driving_power (motor w')"
  using assms
proof (cases rule: set_motor_power_cases)
  case (rejected d w1)
  then show ?thesis by (simp add: log_error_def)
next
  case (accepted r cur w1)
  then show ?thesis by (simp add: set_board_frame)
qed


lemma accepted_on_bench:
  assumes nf: "\<not> no_reading 20 (bench r pwr fs)"
    and lim: "\<bar>p\<bar> \<le> 0.99"
    and j1: "\<not> (\<bar>pwr - p\<bar> > 0.3 \<and> pwr > 0 \<and> p < 0)"
    and j2: "\<not> (\<bar>pwr - p\<bar> > 0.3 \<and> pwr < 0 \<and> p > 0)"
  shows "set_motor_power p (bench r pwr fs) =
           Inr (set_board (p * r)
                  ((snd (get_current_power_level (bench r pwr fs)))
                     \<lparr>motor := port_motor\<lparr>max_power_ratio := Some r, max_power := max p 0,
                          max_driving_power := max \<bar>p * r\<bar> 0\<rparr>\<rparr>))"
proof -
  let ?W = "bench r pwr fs"
  have "fst (get_current_power_level ?W) = pwr"
    using nf by (simp add: get_current_power_level_value bench_simps)
  then have g: "get_current_power_level ?W = (pwr, snd (get_current_power_level ?W))"
    by (metis prod.collapse)
  have l: "\<bar>p\<bar> \<le> motor_power_limit (motor ?W)"
    using lim by (simp add: bench_simps port_motor_simps)
  have r: "max_power_ratio (motor ?W) = Some r" by (simp add: bench_simps)
  from set_motor_power_accepted [OF g l j1 j2 r] show ?thesis
    by (simp add: bench_simps port_motor_simps)
qed



section \<open>The trackers\<close>

text \<open>
  C5. On a new motor with ratio 1, \<open>set_motor_power(-0.5)\<close> is accepted and sent to
  the board; \<open>max_driving_power\<close> becomes 0.5, and \<open>max_power\<close> stays 0.0, since it is
  \<open>max(power_level, _max_power)\<close> without \<open>abs\<close>. The claim has 0.5 for both.
\<close>

theorem max_power_ignores_astern_power:
  "isl (set_motor_power (- 0.5) (bench 1 0.0 [])) = False
   \<and> tb_commands (tb (projr (set_motor_power (- 0.5) (bench 1 0.0 [])))) = [(1, - 0.5)]
   \<and> max_power (motor (projr (set_motor_power (- 0.5) (bench 1 0.0 [])))) = 0.0
   \<and> max_driving_power (motor (projr (set_motor_power (- 0.5) (bench 1 0.0 [])))) = 0.5"
proof -
  have nf: "\<not> no_reading 20 (bench 1 0.0 [])" by (simp add: no_reading_Nil bench_simps)
  obtain x w1 where g: "get_current_power_level (bench 1 0.0 []) = (x, w1)"
    by (cases "get_current_power_level (bench 1 0.0 [])")
  from get_current_power_level_frame [OF g]
  have c: "tb_commands (tb w1) = []" by (simp add: bench_simps)
  have "set_motor_power (- 0.5) (bench 1 0.0 []) =
          Inr (set_board (- 0.5 * 1)
                 (w1\<lparr>motor := port_motor\<lparr>max_power_ratio := Some 1, max_power := max (- 0.5) 0,
                      max_driving_power := max \<bar>- 0.5 * 1\<bar> 0\<rparr>\<rparr>))"
    using accepted_on_bench [OF nf, of "- 0.5"] g by simp
  then show ?thesis
    using c by (simp add: bench_simps port_motor_simps set_board_frame)
qed

section \<open>Acceleration without a reading\<close>

lemma read_board_fault:
  "tb_faults (tb w) = True # fs \<Longrightarrow>
     read_board w = (None, w\<lparr>tb := (tb w)\<lparr>tb_reads := tb_reads (tb w) + 1, tb_faults := fs\<rparr>\<rparr>)"
  by (simp add: read_board_def GetMotor1_def GetMotor2_def)

lemma read_board_ready:
  "tb_faults (tb w) = [] \<Longrightarrow>
     read_board w = (Some (board_power w), w\<lparr>tb := (tb w)\<lparr>tb_reads := tb_reads (tb w) + 1\<rparr>\<rparr>)"
  by (simp add: read_board_def GetMotor1_def GetMotor2_def board_power_def)

lemma get_current_power_level_ready:
  assumes "tb_faults (tb w) = []"
  shows "get_current_power_level w =
           (board_power w, sleep 0.005 (w\<lparr>tb := (tb w)\<lparr>tb_reads := tb_reads (tb w) + 1\<rparr>\<rparr>))"
proof -
  let ?w1 = "w\<lparr>tb := (tb w)\<lparr>tb_reads := tb_reads (tb w) + 1\<rparr>\<rparr>"
  have "read_loop None 0 w = read_loop (Some (board_power w)) (0 + 1) (sleep 0.005 ?w1)"
    by (rule read_loop_step) (simp_all add: read_board_ready [OF assms])
  also have "\<dots> = (Some (board_power w), sleep 0.005 ?w1)"
    by (rule read_loop_done) simp
  finally show ?thesis by (simp add: get_current_power_level_def)
qed

lemma read_loop_faults:
  "tb_faults (tb w) = replicate k True \<Longrightarrow> count + k = 20 \<Longrightarrow>
     read_loop None count w =
       (None, w\<lparr>tb := (tb w)\<lparr>tb_reads := tb_reads (tb w) + k, tb_faults := []\<rparr>,
               slept := slept w + 0.005 * real k\<rparr>)"
proof (induction k arbitrary: count w)
  case 0
  then have "read_loop None count w = (None, w)" by (intro read_loop_done) simp
  with 0 show ?case by simp
next
  case (Suc k)
  let ?w1 = "w\<lparr>tb := (tb w)\<lparr>tb_reads := tb_reads (tb w) + 1, tb_faults := replicate k True\<rparr>\<rparr>"
  from Suc.prems have rb: "read_board w = (None, ?w1)" by (simp add: read_board_fault)
  from Suc.prems have c: "count < 20" by simp
  have f: "tb_faults (tb (sleep 0.005 ?w1)) = replicate k True" by (simp add: sleep_def)
  from Suc.prems have ck: "(count + 1) + k = 20" by simp
  have "read_loop None count w = read_loop None (count + 1) (sleep 0.005 ?w1)"
    by (rule read_loop_step [OF c rb])
  also note Suc.IH [OF f ck]
  finally show ?case by (simp add: sleep_def algebra_simps)
qed

lemma get_current_power_level_faults:
  assumes "tb_faults (tb w) = replicate 20 True"
  shows "get_current_power_level w =
           (0.0, w\<lparr>tb := (tb w)\<lparr>tb_reads := tb_reads (tb w) + 20, tb_faults := []\<rparr>,
                   slept := slept w + 0.1\<rparr>)"
  using read_loop_faults [OF assms, of 0] by (simp add: get_current_power_level_def)

lemma set_motor_power_error: "set_motor_power p w = Inl e \<Longrightarrow> e = AttributeError"
  by (cases "get_current_power_level w")
     (auto simp: set_motor_power_def Let_def split: if_splits option.splits)

lemma accelerate_loop_error:
  "accelerate_loop xs r d w = Inl e \<Longrightarrow> e = AttributeError"
proof (induction xs arbitrary: d w)
  case Nil
  then show ?case by simp
next
  case (Cons x xs)
  show ?case
  proof (cases "set_motor_power (x * r) w")
    case (Inl e')
    with Cons.prems set_motor_power_error [OF Inl] show ?thesis by simp
  next
    case (Inr w1)
    with Cons.prems Cons.IH show ?thesis by (auto simp: Let_def split: if_splits)
  qed
qed

lemma accelerate_never_RuntimeError: "accelerate speed slew_rate n w \<noteq> Inl RuntimeError"
proof
  assume a: "accelerate speed slew_rate n w = Inl RuntimeError"
  obtain lvl w1 where g:
    "get_current_power_level (w\<lparr>motor := (motor w)\<lparr>interrupt := False\<rparr>\<rparr>) = (lvl, w1)"
    by (cases "get_current_power_level (w\<lparr>motor := (motor w)\<lparr>interrupt := False\<rparr>\<rparr>)")
  from a g show False
    by (auto simp: accelerate_def Let_def split: option.splits if_splits sum.splits prod.splits
        dest: accelerate_loop_error)
qed

lemma get_current_power_level_unread_bench: "get_current_power_level
            ((bench 1 0.5 (replicate 20 True))\<lparr>motor := (motor (bench 1 0.5 (replicate 20 True)))\<lparr>interrupt := False\<rparr>\<rparr>)
          = (0.0, unread_bench)"
  by (subst get_current_power_level_faults)
     (simp_all add: bench_def set_max_power_ratio_def port_motor_def unread_bench_def)

lemma set_motor_power_step:
  assumes "tb_faults (tb w) = []" "orientation (motor w) = PORT" "motor_power_limit (motor w) = 0.99"
    "max_power_ratio (motor w) = Some 1" "\<bar>p\<bar> \<le> 0.99"
    "\<not> (\<bar>tb_motor1 (tb w) - p\<bar> > 0.3 \<and> tb_motor1 (tb w) > 0 \<and> p < 0)"
    "\<not> (\<bar>tb_motor1 (tb w) - p\<bar> > 0.3 \<and> tb_motor1 (tb w) < 0 \<and> p > 0)"
  shows "\<exists>w'. set_motor_power p w = Inr w' \<and> tb_faults (tb w') = [] \<and> orientation (motor w') = PORT
     \<and> motor_power_limit (motor w') = 0.99 \<and> max_power_ratio (motor w') = Some 1
     \<and> tb_motor1 (tb w') = p \<and> tb_commands (tb w') = tb_commands (tb w) @ [(1, p)]
     \<and> interrupt (motor w') = interrupt (motor w)"
proof -
  have bp: "board_power w = tb_motor1 (tb w)" using assms(2) by (simp add: board_power_def)
  note g = get_current_power_level_ready [OF assms(1)]
  have l: "\<bar>p\<bar> \<le> motor_power_limit (motor w)" using assms by simp
  from set_motor_power_accepted [OF g l _ _ assms(4)] assms(6,7) bp
  have "set_motor_power p w =
    Inr (set_board (p * 1)
          (sleep 0.005 (w\<lparr>tb := (tb w)\<lparr>tb_reads := tb_reads (tb w) + 1\<rparr>\<rparr>)
           \<lparr>motor := (motor w)
              \<lparr>max_power := max p (max_power (motor w)),
                 max_driving_power := max \<bar>p * 1\<bar> (max_driving_power (motor w))\<rparr>\<rparr>))"
    by simp
  then show ?thesis using assms
    by (simp add: set_board_def SetMotor1_def sleep_def)
qed

lemma arange_3:
  "\<lceil>(stp - start) / step\<rceil> = 3 \<Longrightarrow>
     arange start stp step = [start, start + step, start + 2 * step]"
proof -
  assume "\<lceil>(stp - start) / step\<rceil> = 3"
  then have "arange start stp step = map (\<lambda>i. start + real i * step) [0 ..< 3]"
    by (simp add: arange_def)
  also have "[0 ..< (3::nat)] = [0, 1, 2]" by (simp add: upt_rec)
  finally show ?thesis by simp
qed

lemma unread_bench_simps:
  "max_power_ratio (motor unread_bench) = Some 1" "tb_faults (tb unread_bench) = []" "orientation (motor unread_bench) = PORT"
  "motor_power_limit (motor unread_bench) = 0.99" "tb_motor1 (tb unread_bench) = 0.5" "tb_commands (tb unread_bench) = []"
  "interrupt (motor unread_bench) = False" "accel_loop_delay_sec (motor unread_bench) = 0.1"
  by (simp_all add: unread_bench_def port_motor_def)

lemma sleep_frame:
  "motor (sleep d w) = motor w" "tb (sleep d w) = tb w" "error_log (sleep d w) = error_log w"
  by (simp_all add: sleep_def)

lemma accelerate_loop_unread_bench:
  "\<exists>w. accelerate_loop [0, 2 / 25, 4 / 25] 1 0 unread_bench = Inr (4 / 25, w)
       \<and> tb_commands (tb w) = [(1, 0), (1, 2 / 25), (1, 4 / 25)]"
proof -
  from set_motor_power_step [of unread_bench 0] obtain w2 where w2: "set_motor_power 0 unread_bench = Inr w2"
    "tb_faults (tb w2) = []" "orientation (motor w2) = PORT"
    "motor_power_limit (motor w2) = 0.99" "max_power_ratio (motor w2) = Some 1"
    "tb_motor1 (tb w2) = 0" "tb_commands (tb w2) = [(1, 0)]" "interrupt (motor w2) = False"
    by (auto simp: unread_bench_simps)
  let ?s2 = "sleep (accel_loop_delay_sec (motor w2)) w2"
  from set_motor_power_step [of ?s2 "2 / 25"] w2 obtain w3 where w3: "set_motor_power (2 / 25) ?s2 = Inr w3"
    "tb_faults (tb w3) = []" "orientation (motor w3) = PORT"
    "motor_power_limit (motor w3) = 0.99" "max_power_ratio (motor w3) = Some 1"
    "tb_motor1 (tb w3) = 2 / 25" "tb_commands (tb w3) = [(1, 0), (1, 2 / 25)]"
    "interrupt (motor w3) = False"
    by (auto simp: sleep_frame)
  let ?s3 = "sleep (accel_loop_delay_sec (motor w3)) w3"
  from set_motor_power_step [of ?s3 "4 / 25"] w3 obtain w4 where w4: "set_motor_power (4 / 25) ?s3 = Inr w4"
    "tb_commands (tb w4) = [(1, 0), (1, 2 / 25), (1, 4 / 25)]"
    "interrupt (motor w4) = False"
    by (auto simp: sleep_frame)
  let ?s4 = "sleep (accel_loop_delay_sec (motor w4)) w4"
  have "accelerate_loop [0, 2 / 25, 4 / 25] 1 0 unread_bench = Inr (4 / 25, ?s4)"
    using w2(1,8) w3(1,8) w4(1,3) by (simp add: Let_def)
  moreover have "tb_commands (tb ?s4) = [(1, 0), (1, 2 / 25), (1, 4 / 25)]"
    using w4(2) by (simp add: sleep_frame)
  ultimately show ?thesis by blast
qed

text \<open>
  C8. The first part holds: \<open>get_current_power_level\<close> reads at most 20 times, sleeps
  0.005 s per read, and answers 0.0 when all 20 reads fail
  (\<open>get_current_power_level_attempts\<close>). The second part does not: the value that
  \<open>accelerate\<close> tests with \<open>is None\<close> is that answer, never \<open>None\<close>, so \<open>accelerate\<close>
  never raises \<open>RuntimeError\<close> (\<open>accelerate_never_RuntimeError\<close>). On a board that holds
  the power 0.5 and fails 20 reads, \<open>accelerate(16, NORMAL, -1)\<close> takes the current power
  to be 0.0 and ramps from there: it commands 0.0, 0.08 and 0.16.
\<close>

theorem accelerate_assumes_zero_without_reading:
  "fst (get_current_power_level (bench 1 0.5 (replicate 20 True))) = 0.0
   \<and> board_power (bench 1 0.5 (replicate 20 True)) = 0.5
   \<and> isl (accelerate 16 NORMAL (- 1) (bench 1 0.5 (replicate 20 True))) = False
   \<and> tb_commands (tb (projr (accelerate 16 NORMAL (- 1) (bench 1 0.5 (replicate 20 True)))))
       = [(1, 0.0), (1, 0.08), (1, 0.16)]"
proof -
  have c: "\<lceil>(161 / 1000 - 0) / (2 / 25 :: real)\<rceil> = 3"
    by (simp add: ceiling_eq_iff)
  have a: "arange 0 (161 / 1000) (2 / 25 :: real) = [0, 2 / 25, 4 / 25]"
    using arange_3 [OF c] by simp
  from accelerate_loop_unread_bench obtain w where w: "accelerate_loop [0, 2 / 25, 4 / 25] 1 0 unread_bench = Inr (4 / 25, w)"
    "tb_commands (tb w) = [(1, 0), (1, 2 / 25), (1, 4 / 25)]" by blast
  have "accelerate 16 NORMAL (- 1) (bench 1 0.5 (replicate 20 True)) = Inr w"
    unfolding accelerate_def get_current_power_level_unread_bench Let_def
    by (simp add: unread_bench_simps a w(1) del: accelerate_loop.simps)
  moreover have "fst (get_current_power_level (bench 1 0.5 (replicate 20 True))) = 0.0"
    by (simp add: get_current_power_level_value no_reading_def bench_simps)
  ultimately show ?thesis using w(2) by (simp add: bench_simps)
qed

section \<open>One pass of the controller\<close>

lemma set_motor_power_total:
  assumes "max_power_ratio (motor w) = Some r"
  shows "\<exists>w'. set_motor_power p w = Inr w'"
proof (cases "set_motor_power p w")
  case (Inl e)
  obtain cur w1 where g: "get_current_power_level w = (cur, w1)"
    by (cases "get_current_power_level w")
  from get_current_power_level_frame [OF g] assms have "max_power_ratio (motor w1) = Some r"
    by simp
  with Inl g show ?thesis
    by (auto simp: set_motor_power_def Let_def split: if_splits)
next
  case (Inr w')
  then show ?thesis by blast
qed

lemma set_motor_power_motor_frame:
  assumes "set_motor_power p w = Inr w'"
  shows "velocity (motor w') = velocity (motor w) \<and> steps (motor w') = steps (motor w)
       \<and> interrupt (motor w') = interrupt (motor w)
       \<and> max_power_ratio (motor w') = max_power_ratio (motor w)
       \<and> orientation (motor w') = orientation (motor w)
       \<and> motor_power_limit (motor w') = motor_power_limit (motor w)"
  using assms
proof (cases rule: set_motor_power_cases)
  case (rejected d w1)
  then show ?thesis by (simp add: log_error_def)
next
  case (accepted r cur w1)
  then show ?thesis by (simp add: set_board_frame)
qed


lemma compute_changed:
  assumes r: "max_power_ratio (motor w) = Some r" "r \<noteq> 0"
    and e: "err = target - velocity (motor w)" "err \<noteq> 0"
    and g: "get_current_power_level w = (level, w1)"
    and o: "out = (if enable_p p then kp p * err else 0.0)
                + (if enable_i p then ki p * sum_errors p else 0.0)
                + (if enable_d p then kd p * last_error p else 0.0)"
    and s: "set_motor_power (level * (1.0 / r) + clip (clip_max p) out) w1 = Inr w2"
  shows "compute target (p, w) =
           Inr (True,
                capture (level * (1.0 / r) + clip (clip_max p) out) (velocity (motor w)) target w2
                  (p\<lparr>counter := counter p + 1, loop_count := counter p,
                     last_error := err, sum_errors := sum_errors p + err\<rparr>),
                w2)"
proof -
  from get_current_power_level_frame [OF g] r have r1: "max_power_ratio (motor w1) = Some r"
    by simp
  from e have nz: "\<not> equals_zero (target - velocity (motor w))" by (simp add: equals_zero_iff)
  show ?thesis
    unfolding compute_def
    using g r1 r(2) nz s [unfolded o e(1)] e(1) o
    by (auto simp: Let_def)
qed

lemma compute_unchanged:
  assumes r: "max_power_ratio (motor w) = Some r" "r \<noteq> 0"
    and e: "target - velocity (motor w) = 0"
    and g: "get_current_power_level w = (level, w1)"
    and s: "(if target = 0.0 then set_motor_power 0.0 w1 else Inr w1) = Inr w2"
  shows "compute target (p, w) =
           Inr (False,
                capture (level * (1.0 / r)) (velocity (motor w)) target w2
                  (p\<lparr>counter := counter p + 1, loop_count := counter p, last_error := 0.0\<rparr>),
                w2)"
proof -
  from get_current_power_level_frame [OF g] r have r1: "max_power_ratio (motor w1) = Some r"
    by simp
  from e have z: "equals_zero (target - velocity (motor w))" by (simp add: equals_zero_iff)
  show ?thesis
    unfolding compute_def
    using g r1 r(2) z s
    by (auto simp: Let_def split: if_splits)
qed



section \<open>Runs of the controller\<close>

lemma capture_fields:
  "last_error (capture a b c w p) = last_error p" "sum_errors (capture a b c w p) = sum_errors p"
  "step_limit (capture a b c w p) = step_limit p" "enable_slew (capture a b c w p) = enable_slew p"
  by (simp_all add: capture_def)

lemma compute_effect:
  assumes c: "compute target (p, w) = Inr (ch, p1, w1)"
  shows "ch = (target - velocity (motor w) \<noteq> 0)
       \<and> sum_errors p1 = sum_errors p + (target - velocity (motor w))
       \<and> last_error p1 = target - velocity (motor w)
       \<and> step_limit p1 = step_limit p \<and> enable_slew p1 = enable_slew p
       \<and> velocity (motor w1) = velocity (motor w) \<and> steps (motor w1) = steps (motor w)
       \<and> interrupt (motor w1) = interrupt (motor w)"
proof -
  obtain level w0 where g: "get_current_power_level w = (level, w0)"
    by (cases "get_current_power_level w")
  note f = get_current_power_level_frame [OF g]
  from c g f obtain r where r: "max_power_ratio (motor w) = Some r" "r \<noteq> 0"
    by (cases "max_power_ratio (motor w)")
       (auto simp: compute_def Let_def split: if_splits)
  show ?thesis
  proof (cases "target - velocity (motor w) = 0")
    case True
    let ?s = "if target = 0.0 then set_motor_power 0.0 w0 else Inr w0"
    from f r have "\<exists>w2. ?s = Inr w2" using set_motor_power_total [of w0 r "0.0"] by simp
    then obtain w2 where s: "?s = Inr w2" ..
    have m: "velocity (motor w2) = velocity (motor w) \<and> steps (motor w2) = steps (motor w)
       \<and> interrupt (motor w2) = interrupt (motor w)"
    proof (cases "target = 0.0")
      case True
      with s have "set_motor_power 0.0 w0 = Inr w2" by simp
      from set_motor_power_motor_frame [OF this] f show ?thesis by simp
    next
      case False
      with s f show ?thesis by simp
    qed
    from compute_unchanged [OF r True g s, of p] c True m show ?thesis
      by (simp add: capture_fields)
  next
    case False
    let ?out = "(if enable_p p then kp p * (target - velocity (motor w)) else 0.0)
                + (if enable_i p then ki p * sum_errors p else 0.0)
                + (if enable_d p then kd p * last_error p else 0.0)"
    from f r have "max_power_ratio (motor w0) = Some r" by simp
    from set_motor_power_total [OF this] obtain w2
      where s: "set_motor_power (level * (1.0 / r) + clip (clip_max p) ?out) w0 = Inr w2"
      by blast
    from compute_changed [OF r refl False g refl s] c False
      set_motor_power_motor_frame [OF s] f
    show ?thesis by (simp add: capture_fields)
  qed
qed

lemma step_loop_accumulates:
  "step_loop target direction ticks (p, w) = Some (Inr (p', w')) \<Longrightarrow>
     sum_errors p' = sum_errors p
       + sum_list (run_errors target direction (step_limit p) (enable_slew p)
                     (interrupt (motor w)) ticks)
     \<and> last_error p' =
         (case run_errors target direction (step_limit p) (enable_slew p)
                 (interrupt (motor w)) ticks of
            [] \<Rightarrow> last_error p | e # es \<Rightarrow> last (e # es))"
proof (induction ticks arbitrary: p w)
  case Nil
  then show ?case by simp
next
  case (Cons t ts)
  define w0 where "w0 = w\<lparr>motor := (motor w)\<lparr>steps := t_steps t, velocity := t_velocity t\<rparr>\<rparr>"
  define tv where "tv = (if enable_slew p then t_slewed t else target)"
  define e where "e = tv - t_velocity t"
  define R where "R = run_errors target direction (step_limit p) (enable_slew p) False ts"
  define halt where "halt \<longleftrightarrow> (e = 0 \<and> t_velocity t = 0.0 \<and> target = 0.0 \<and> step_limit p > 0)
                 \<or> interrupt (motor w) \<or> t_interrupt t"
  have unf: "step_loop target direction (t # ts) (p, w) =
     (if \<not> (t_enabled t \<and> is_stepping direction p w0) then Some (Inr (p, w0))
      else
        (case compute tv (p, w0) of
           Inl e \<Rightarrow> Some (Inl e)
         | Inr (changed, p1, w1) \<Rightarrow>
             if \<not> changed \<and> velocity (motor w1) = 0.0 \<and> target = 0.0 \<and> step_limit p1 > 0
             then Some (Inr (p1, w1))
             else
               (let w2 = w1\<lparr>motor := (motor w1)\<lparr>interrupt :=
                                interrupt (motor w1) \<or> t_interrupt t\<rparr>\<rparr>
                in if interrupt (motor w2) then Some (Inr (p1, w2))
                   else step_loop target direction ts (p1, w2))))"
    by (simp add: w0_def tv_def Let_def)
  have st: "is_stepping direction p w0 =
        (if direction = FORWARD then t_steps t < step_limit p else t_steps t > step_limit p)"
    by (simp add: is_stepping_def w0_def)
  show ?case
  proof (cases "t_enabled t \<and> is_stepping direction p w0")
    case False
    with Cons.prems unf have "p' = p" by simp
    moreover from False st
    have "run_errors target direction (step_limit p) (enable_slew p) (interrupt (motor w)) (t # ts) = []"
      by simp
    ultimately show ?thesis by simp
  next
    case go: True
    with st have re: "run_errors target direction (step_limit p) (enable_slew p)
                        (interrupt (motor w)) (t # ts) = e # (if halt then [] else R)"
      by (simp add: Let_def e_def tv_def R_def halt_def)
    from go Cons.prems unf obtain ch p1 w1 where c: "compute tv (p, w0) = Inr (ch, p1, w1)"
      by (cases "compute tv (p, w0)") auto
    from compute_effect [OF c]
    have ee: "ch = (e \<noteq> 0)" "sum_errors p1 = sum_errors p + e"
      "last_error p1 = e" "step_limit p1 = step_limit p" "enable_slew p1 = enable_slew p"
      "velocity (motor w1) = t_velocity t" "interrupt (motor w1) = interrupt (motor w)"
      by (simp_all add: e_def w0_def)
    define w2 where "w2 = w1\<lparr>motor := (motor w1)\<lparr>interrupt :=
                                interrupt (motor w1) \<or> t_interrupt t\<rparr>\<rparr>"
    have i2: "interrupt (motor w2) = (interrupt (motor w) \<or> t_interrupt t)"
      by (simp add: w2_def ee)
    have brk: "(\<not> ch \<and> velocity (motor w1) = 0.0 \<and> target = 0.0 \<and> step_limit p1 > 0)
               = (e = 0 \<and> t_velocity t = 0.0 \<and> target = 0.0 \<and> step_limit p > 0)"
      by (simp add: ee)
    from Cons.prems unf go c
    have res: "(if \<not> ch \<and> velocity (motor w1) = 0.0 \<and> target = 0.0 \<and> step_limit p1 > 0
                then Some (Inr (p1, w1))
                else if interrupt (motor w2) then Some (Inr (p1, w2))
                     else step_loop target direction ts (p1, w2)) = Some (Inr (p', w'))"
      by (simp add: w2_def Let_def)
    show ?thesis
    proof (cases halt)
      case True
      with res brk i2 have "p' = p1" by (auto simp: halt_def split: if_splits)
      with ee re True show ?thesis by simp
    next
      case False
      with res brk i2 have rec: "step_loop target direction ts (p1, w2) = Some (Inr (p', w'))"
        by (auto simp: halt_def split: if_splits)
      from False i2 have i2': "interrupt (motor w2) = False" by (simp add: halt_def)
      from Cons.IH [OF rec]
      have "sum_errors p' = sum_errors p1 + sum_list R"
        and "last_error p' = (case R of [] \<Rightarrow> last_error p1 | x # xs \<Rightarrow> last (x # xs))"
        by (simp_all only: ee(4,5) i2' R_def)
      with re False ee(2,3) show ?thesis by (cases R) simp_all
    qed
  qed
qed

text \<open>
  C4, amended. The constructor sets \<open>last_error\<close> and \<open>sum_errors\<close> to 0.0, and nothing
  in \<open>step_to\<close> resets them. A run that returns leaves the sum at its value on entry plus
  the errors of the passes of this run, and leaves the last error at the error of its
  last pass, or as it was when the run made no pass.
\<close>

theorem accumulators_carried_between_runs:
  "last_error (PID_init config) = 0.0 \<and> sum_errors (PID_init config) = 0.0
   \<and> (\<forall>p' w'. step_to target_velocity direction slew_rate ticks (p, w) = Some (Inr (p', w')) \<longrightarrow>
         sum_errors p' = sum_errors p
           + sum_list (run_errors
                (if direction = FORWARD then Velocity_value target_velocity
                 else -1.0 * Velocity_value target_velocity)
                direction (step_limit p) (enable_slew p) (interrupt (motor w)) ticks)
         \<and> last_error p' =
             (case run_errors
                (if direction = FORWARD then Velocity_value target_velocity
                 else -1.0 * Velocity_value target_velocity)
                direction (step_limit p) (enable_slew p) (interrupt (motor w)) ticks of
                [] \<Rightarrow> last_error p | e # es \<Rightarrow> last (e # es)))"
proof -
  define tgt where "tgt = (if direction = FORWARD then Velocity_value target_velocity
                           else -1.0 * Velocity_value target_velocity)"
  have run: "sum_errors p' = sum_errors p
           + sum_list (run_errors tgt direction (step_limit p) (enable_slew p)
                         (interrupt (motor w)) ticks)
         \<and> last_error p' =
             (case run_errors tgt direction (step_limit p) (enable_slew p)
                     (interrupt (motor w)) ticks of
                [] \<Rightarrow> last_error p | e # es \<Rightarrow> last (e # es))"
    if s: "step_to target_velocity direction slew_rate ticks (p, w) = Some (Inr (p', w'))"
    for p' w'
  proof -
    from s obtain w1 where "step_loop tgt direction ticks (p, w) = Some (Inr (p', w1))"
      by (auto simp: step_to_def tgt_def Let_def split: option.splits sum.splits)
    from step_loop_accumulates [OF this] show ?thesis .
  qed
  have "last_error (PID_init config) = 0.0 \<and> sum_errors (PID_init config) = 0.0"
    by (simp add: PID_init_def)
  with run show ?thesis unfolding tgt_def by blast
qed

lemma compute_on_bench:
  assumes h: "tb_faults (tb w) = []" "orientation (motor w) = PORT"
      "motor_power_limit (motor w) = 0.99" "max_power_ratio (motor w) = Some 1"
    and nf: "\<not> filewriter p"
    and e: "err = target - velocity (motor w)" "err \<noteq> 0"
    and o: "out = (if enable_p p then kp p * err else 0.0)
                + (if enable_i p then ki p * sum_errors p else 0.0)
                + (if enable_d p then kd p * last_error p else 0.0)"
    and n: "new = tb_motor1 (tb w) + clip (clip_max p) out"
    and lim: "\<bar>new\<bar> \<le> 0.99"
    and j1: "\<not> (\<bar>tb_motor1 (tb w) - new\<bar> > 0.3 \<and> tb_motor1 (tb w) > 0 \<and> new < 0)"
    and j2: "\<not> (\<bar>tb_motor1 (tb w) - new\<bar> > 0.3 \<and> tb_motor1 (tb w) < 0 \<and> new > 0)"
  shows "\<exists>w1. compute target (p, w) =
                 Inr (True, p\<lparr>counter := counter p + 1, loop_count := counter p,
                               last_error := err, sum_errors := sum_errors p + err\<rparr>, w1)
           \<and> tb_faults (tb w1) = [] \<and> orientation (motor w1) = PORT
           \<and> motor_power_limit (motor w1) = 0.99 \<and> max_power_ratio (motor w1) = Some 1
           \<and> tb_motor1 (tb w1) = new \<and> tb_commands (tb w1) = tb_commands (tb w) @ [(1, new)]
           \<and> interrupt (motor w1) = interrupt (motor w)
           \<and> steps (motor w1) = steps (motor w)"
proof -
  define w0 where "w0 = sleep 0.005 (w\<lparr>tb := (tb w)\<lparr>tb_reads := tb_reads (tb w) + 1\<rparr>\<rparr>)"
  have bp: "board_power w = tb_motor1 (tb w)" using h(2) by (simp add: board_power_def)
  have g: "get_current_power_level w = (tb_motor1 (tb w), w0)"
    using get_current_power_level_ready [OF h(1)] bp by (simp add: w0_def)
  have f: "tb_faults (tb w0) = []" "orientation (motor w0) = PORT"
    "motor_power_limit (motor w0) = 0.99" "max_power_ratio (motor w0) = Some 1"
    "tb_motor1 (tb w0) = tb_motor1 (tb w)" "tb_commands (tb w0) = tb_commands (tb w)"
    "interrupt (motor w0) = interrupt (motor w)" "steps (motor w0) = steps (motor w)"
    using h by (simp_all add: w0_def sleep_def)
  from set_motor_power_step [of w0 new] f lim j1 j2
  obtain w1 where w1: "set_motor_power new w0 = Inr w1" "tb_faults (tb w1) = []"
    "orientation (motor w1) = PORT" "motor_power_limit (motor w1) = 0.99"
    "max_power_ratio (motor w1) = Some 1" "tb_motor1 (tb w1) = new"
    "tb_commands (tb w1) = tb_commands (tb w) @ [(1, new)]"
    "interrupt (motor w1) = interrupt (motor w)"
    by auto
  from set_motor_power_motor_frame [OF w1(1)] f
  have st: "steps (motor w1) = steps (motor w)" by simp
  have one: "(1::real) \<noteq> 0" by simp
  have s: "set_motor_power (tb_motor1 (tb w) * (1.0 / 1) + clip (clip_max p) out) w0 = Inr w1"
    using w1(1) n by simp
  from compute_changed [OF h(4) one e g o s] nf
  have "compute target (p, w) =
          Inr (True, p\<lparr>counter := counter p + 1, loop_count := counter p,
                        last_error := err, sum_errors := sum_errors p + err\<rparr>, w1)"
    by (simp add: capture_def)
  with w1 st show ?thesis by blast
qed

lemma pass_simps:
  "t_enabled (pass n v) = True" "t_steps (pass n v) = n" "t_velocity (pass n v) = v"
  "t_slewed (pass n v) = 0" "t_interrupt (pass n v) = False"
  by (simp_all add: pass_def)

lemma two_pass_run:
  assumes h: "tb_faults (tb w) = []" "orientation (motor w) = PORT"
      "motor_power_limit (motor w) = 0.99" "max_power_ratio (motor w) = Some 1"
      "interrupt (motor w) = False"
    and p: "\<not> filewriter p" "\<not> enable_slew p"
    and st: "n0 < step_limit p" "\<not> n1 < step_limit p"
    and e: "err = 30 - v0" "err \<noteq> 0"
    and o: "out = (if enable_p p then kp p * err else 0.0)
                + (if enable_i p then ki p * sum_errors p else 0.0)
                + (if enable_d p then kd p * last_error p else 0.0)"
    and n: "new = tb_motor1 (tb w) + clip (clip_max p) out"
    and lim: "\<bar>new\<bar> \<le> 0.99"
    and j1: "\<not> (\<bar>tb_motor1 (tb w) - new\<bar> > 0.3 \<and> tb_motor1 (tb w) > 0 \<and> new < 0)"
    and j2: "\<not> (\<bar>tb_motor1 (tb w) - new\<bar> > 0.3 \<and> tb_motor1 (tb w) < 0 \<and> new > 0)"
  shows "\<exists>w'. step_to SLOW FORWARD NORMAL [pass n0 v0, pass n1 v1] (p, w) =
                 Some (Inr (p\<lparr>counter := counter p + 1, loop_count := counter p,
                               last_error := err, sum_errors := sum_errors p + err\<rparr>, w'))
           \<and> tb_faults (tb w') = [] \<and> orientation (motor w') = PORT
           \<and> motor_power_limit (motor w') = 0.99 \<and> max_power_ratio (motor w') = Some 1
           \<and> tb_motor1 (tb w') = new \<and> tb_commands (tb w') = tb_commands (tb w) @ [(1, new)]
           \<and> interrupt (motor w') = False \<and> steps (motor w') = n1"
proof -
  let ?w0 = "w\<lparr>motor := (motor w)\<lparr>steps := n0, velocity := v0\<rparr>\<rparr>"
  let ?p1 = "p\<lparr>counter := counter p + 1, loop_count := counter p,
               last_error := err, sum_errors := sum_errors p + err\<rparr>"
  have h0: "tb_faults (tb ?w0) = []" "orientation (motor ?w0) = PORT"
      "motor_power_limit (motor ?w0) = 0.99" "max_power_ratio (motor ?w0) = Some 1"
    using h by simp_all
  have e0: "err = 30 - velocity (motor ?w0)" using e(1) by simp
  have n0: "new = tb_motor1 (tb ?w0) + clip (clip_max p) out" using n by simp
  have j10: "\<not> (\<bar>tb_motor1 (tb ?w0) - new\<bar> > 0.3 \<and> tb_motor1 (tb ?w0) > 0 \<and> new < 0)"
    and j20: "\<not> (\<bar>tb_motor1 (tb ?w0) - new\<bar> > 0.3 \<and> tb_motor1 (tb ?w0) < 0 \<and> new > 0)"
    using j1 j2 by simp_all
  from compute_on_bench [OF h0 p(1) e0 e(2) o n0 lim j10 j20]
  obtain w1 where c: "compute 30 (p, ?w0) = Inr (True, ?p1, w1)"
    and w1: "tb_faults (tb w1) = []" "orientation (motor w1) = PORT"
      "motor_power_limit (motor w1) = 0.99" "max_power_ratio (motor w1) = Some 1"
      "tb_motor1 (tb w1) = new" "tb_commands (tb w1) = tb_commands (tb w) @ [(1, new)]"
      "interrupt (motor w1) = False"
    using h(5) by auto
  let ?w2 = "w1"
  let ?w3 = "?w2\<lparr>motor := (motor ?w2)\<lparr>steps := n1, velocity := v1\<rparr>\<rparr>"
  let ?w4 = "?w3\<lparr>motor := (motor ?w3)\<lparr>interrupt := False\<rparr>\<rparr>"
  have l1: "step_loop 30 FORWARD [pass n1 v1] (?p1, ?w2) = Some (Inr (?p1, ?w3))"
    using st(2) by (simp add: pass_simps is_stepping_def)
  have "step_loop 30 FORWARD [pass n0 v0, pass n1 v1] (p, w) =
          step_loop 30 FORWARD [pass n1 v1] (?p1, ?w2)"
    apply (subst step_loop.simps(2))
    using st(1) p(2) c w1(7)
    apply (simp add: pass_simps is_stepping_def Let_def del: step_loop.simps)
    done
  with l1 have "step_to SLOW FORWARD NORMAL [pass n0 v0, pass n1 v1] (p, w) = Some (Inr (?p1, ?w4))"
    by (simp add: step_to_def del: step_loop.simps)
  moreover have "tb_faults (tb ?w4) = [] \<and> orientation (motor ?w4) = PORT
           \<and> motor_power_limit (motor ?w4) = 0.99 \<and> max_power_ratio (motor ?w4) = Some 1
           \<and> tb_motor1 (tb ?w4) = new \<and> tb_commands (tb ?w4) = tb_commands (tb w) @ [(1, new)]
           \<and> interrupt (motor ?w4) = False \<and> steps (motor ?w4) = n1"
    using w1 by simp
  ultimately show ?thesis by blast
qed

lemma first_run_result:
  "\<exists>w. first_run = Some (Inr (after_first_run, w))
       \<and> tb_faults (tb w) = [] \<and> orientation (motor w) = PORT
       \<and> motor_power_limit (motor w) = 0.99 \<and> max_power_ratio (motor w) = Some 1
       \<and> tb_motor1 (tb w) = 0.3 \<and> tb_commands (tb w) = [(1, 0.3)]
       \<and> interrupt (motor w) = False \<and> steps (motor w) = 10"
proof -
  let ?W = "bench 1 0.0 []"
  let ?P = "(PID_init bench_config)\<lparr>step_limit := 10\<rparr>"
  have P: "set_step_limit FORWARD 10 (PID_init bench_config) ?W = ?P"
    by (simp add: set_step_limit_def bench_simps port_motor_def)
  have h: "tb_faults (tb ?W) = []" "orientation (motor ?W) = PORT"
      "motor_power_limit (motor ?W) = 0.99" "max_power_ratio (motor ?W) = Some 1"
      "interrupt (motor ?W) = False"
    by (simp_all add: bench_simps port_motor_simps)
  have p: "\<not> filewriter ?P" "\<not> enable_slew ?P" "0 < step_limit ?P" "\<not> 10 < step_limit ?P"
    by (simp_all add: PID_init_def bench_config_def)
  have e: "(30::real) = 30 - 0.0" "(30::real) \<noteq> 0" by simp_all
  have o: "(0.3::real) = (if enable_p ?P then kp ?P * 30 else 0.0)
                + (if enable_i ?P then ki ?P * sum_errors ?P else 0.0)
                + (if enable_d ?P then kd ?P * last_error ?P else 0.0)"
    by (simp add: PID_init_def bench_config_def)
  have n: "(0.3::real) = tb_motor1 (tb ?W) + clip (clip_max ?P) 0.3"
    by (simp add: PID_init_def bench_config_def clip_def bench_simps)
  have lim: "\<bar>0.3::real\<bar> \<le> 0.99" by simp
  have j1: "\<not> (\<bar>tb_motor1 (tb ?W) - 0.3\<bar> > 0.3 \<and> tb_motor1 (tb ?W) > 0 \<and> (0.3::real) < 0)"
    and j2: "\<not> (\<bar>tb_motor1 (tb ?W) - 0.3\<bar> > 0.3 \<and> tb_motor1 (tb ?W) < 0 \<and> (0.3::real) > 0)"
    by (simp_all add: bench_simps)
  from two_pass_run [OF h p e o n lim j1 j2, of "20.0"]
  obtain w where w: "step_to SLOW FORWARD NORMAL [pass 0 0.0, pass 10 20.0] (?P, ?W) =
                 Some (Inr (?P\<lparr>counter := counter ?P + 1, loop_count := counter ?P,
                               last_error := 30, sum_errors := sum_errors ?P + 30\<rparr>, w))"
    "tb_faults (tb w) = []" "orientation (motor w) = PORT"
    "motor_power_limit (motor w) = 0.99" "max_power_ratio (motor w) = Some 1"
    "tb_motor1 (tb w) = 0.3" "tb_commands (tb w) = tb_commands (tb ?W) @ [(1, 0.3)]"
    "interrupt (motor w) = False" "steps (motor w) = 10"
    by blast
  have "?P\<lparr>counter := counter ?P + 1, loop_count := counter ?P,
             last_error := 30, sum_errors := sum_errors ?P + 30\<rparr> = after_first_run"
    by (simp add: after_first_run_def PID_init_def)
  with w(1) have "first_run = Some (Inr (after_first_run, w))"
    unfolding first_run_def P by simp
  with w show ?thesis by (auto simp: bench_simps)
qed

lemma second_run_result:
  "\<exists>w. second_run = Some (Inr (after_second_run, w))
       \<and> tb_commands (tb w) = [(1, 0.3), (1, 0.66)]"
proof -
  from first_run_result obtain w1 where f: "first_run = Some (Inr (after_first_run, w1))"
    and h: "tb_faults (tb w1) = []" "orientation (motor w1) = PORT"
      "motor_power_limit (motor w1) = 0.99" "max_power_ratio (motor w1) = Some 1"
      "interrupt (motor w1) = False"
    and b: "tb_motor1 (tb w1) = 0.3" "tb_commands (tb w1) = [(1, 0.3)]" "steps (motor w1) = 10"
    by blast
  let ?P = "after_first_run\<lparr>step_limit := 20\<rparr>"
  have P: "set_step_limit FORWARD 10 after_first_run w1 = ?P"
    by (simp add: set_step_limit_def b)
  have p: "\<not> filewriter ?P" "\<not> enable_slew ?P" "10 < step_limit ?P" "\<not> 20 < step_limit ?P"
    by (simp_all add: after_first_run_def PID_init_def bench_config_def)
  have e: "(30::real) = 30 - 0.0" "(30::real) \<noteq> 0" by simp_all
  have o: "(0.36::real) = (if enable_p ?P then kp ?P * 30 else 0.0)
                + (if enable_i ?P then ki ?P * sum_errors ?P else 0.0)
                + (if enable_d ?P then kd ?P * last_error ?P else 0.0)"
    by (simp add: after_first_run_def PID_init_def bench_config_def)
  have n: "(0.66::real) = tb_motor1 (tb w1) + clip (clip_max ?P) 0.36"
    by (simp add: after_first_run_def PID_init_def bench_config_def clip_def b)
  have lim: "\<bar>0.66::real\<bar> \<le> 0.99" by simp
  have j1: "\<not> (\<bar>tb_motor1 (tb w1) - 0.66\<bar> > 0.3 \<and> tb_motor1 (tb w1) > 0 \<and> (0.66::real) < 0)"
    and j2: "\<not> (\<bar>tb_motor1 (tb w1) - 0.66\<bar> > 0.3 \<and> tb_motor1 (tb w1) < 0 \<and> (0.66::real) > 0)"
    by (simp_all add: b)
  from two_pass_run [OF h p e o n lim j1 j2, of "20.0"]
  obtain w where w: "step_to SLOW FORWARD NORMAL [pass 10 0.0, pass 20 20.0] (?P, w1) =
                 Some (Inr (?P\<lparr>counter := counter ?P + 1, loop_count := counter ?P,
                               last_error := 30, sum_errors := sum_errors ?P + 30\<rparr>, w))"
    "tb_commands (tb w) = tb_commands (tb w1) @ [(1, 0.66)]"
    by blast
  have "?P\<lparr>counter := counter ?P + 1, loop_count := counter ?P,
             last_error := 30, sum_errors := sum_errors ?P + 30\<rparr> = after_second_run"
    by (simp add: after_first_run_def after_second_run_def PID_init_def)
  with w(1) have "second_run = Some (Inr (after_second_run, w))"
    unfolding second_run_def f by (simp add: P)
  with w(2) b show ?thesis by auto
qed

text \<open>
  C4 as stated fails. On the bench, a first run of \<open>step_to\<close> (target \<open>SLOW\<close>, 10 steps
  forward) makes one pass with error 30 and ends with \<open>sum_errors = 30\<close>. A second run
  with the same goal makes one pass with error 30 again: it ends with \<open>sum_errors = 60\<close>,
  and its pass commands 0.66, that is 0.3 + (P = 0.3) + (I = 0.001 * 30)
  + (D = 0.001 * 30): the sum and the last error of the first run are in it.
\<close>

theorem errors_carry_into_next_run_counterexample:
  "first_run \<noteq> None \<and> isl (the first_run) = False
   \<and> sum_errors (fst (projr (the first_run))) = 30
   \<and> last_error (fst (projr (the first_run))) = 30
   \<and> second_run \<noteq> None \<and> isl (the second_run) = False
   \<and> sum_errors (fst (projr (the second_run))) = 60
   \<and> tb_commands (tb (snd (projr (the second_run)))) = [(1, 0.3), (1, 0.66)]"
proof -
  from first_run_result obtain w1 where f1: "first_run = Some (Inr (after_first_run, w1))"
    by blast
  from second_run_result obtain w2
    where f2: "second_run = Some (Inr (after_second_run, w2))"
      and c: "tb_commands (tb w2) = [(1, 0.3), (1, 0.66)]" by blast
  show ?thesis
    unfolding f1 f2 using c by (simp add: after_first_run_def after_second_run_def)
qed

theorem accumulators_carried_between_runs_witness:
  "first_run \<noteq> None \<and> isl (the first_run) = False
   \<and> sum_errors (fst (projr (the first_run)))
       = sum_errors ((PID_init bench_config)\<lparr>step_limit := 10\<rparr>)
         + sum_list (run_errors 30 FORWARD 10 False False [pass 0 0.0, pass 10 20.0])
   \<and> sum_list (run_errors 30 FORWARD 10 False False [pass 0 0.0, pass 10 20.0]) = 30"
proof -
  let ?W = "bench 1 0.0 []"
  let ?P = "(PID_init bench_config)\<lparr>step_limit := 10\<rparr>"
  have P: "set_step_limit FORWARD 10 (PID_init bench_config) ?W = ?P"
    by (simp add: set_step_limit_def bench_simps port_motor_def)
  from first_run_result obtain w1 where f: "first_run = Some (Inr (after_first_run, w1))" by blast
  then have s: "step_to SLOW FORWARD NORMAL [pass 0 0.0, pass 10 20.0] (?P, ?W)
                  = Some (Inr (after_first_run, w1))"
    unfolding first_run_def P .
  note T = accumulators_carried_between_runs
    [where target_velocity = SLOW and direction = FORWARD and slew_rate = NORMAL
       and ticks = "[pass 0 0.0, pass 10 20.0]" and p = ?P and w = ?W and config = bench_config]
  from T have "\<forall>p' w'. step_to SLOW FORWARD NORMAL [pass 0 0.0, pass 10 20.0] (?P, ?W)
                          = Some (Inr (p', w')) \<longrightarrow>
         sum_errors p' = sum_errors ?P
           + sum_list (run_errors
                (if FORWARD = FORWARD then Velocity_value SLOW else -1.0 * Velocity_value SLOW)
                FORWARD (step_limit ?P) (enable_slew ?P) (interrupt (motor ?W))
                [pass 0 0.0, pass 10 20.0])
         \<and> last_error p' =
             (case run_errors
                (if FORWARD = FORWARD then Velocity_value SLOW else -1.0 * Velocity_value SLOW)
                FORWARD (step_limit ?P) (enable_slew ?P) (interrupt (motor ?W))
                [pass 0 0.0, pass 10 20.0] of
                [] \<Rightarrow> last_error ?P | e # es \<Rightarrow> last (e # es))"
    by (rule conjunct2 [THEN conjunct2])
  with s have "sum_errors after_first_run = sum_errors ?P
           + sum_list (run_errors
                (if FORWARD = FORWARD then Velocity_value SLOW else -1.0 * Velocity_value SLOW)
                FORWARD (step_limit ?P) (enable_slew ?P) (interrupt (motor ?W))
                [pass 0 0.0, pass 10 20.0])"
    by blast
  moreover have "step_limit ?P = 10" "enable_slew ?P = False" "interrupt (motor ?W) = False"
    by (simp_all add: PID_init_def bench_config_def bench_simps port_motor_simps)
  ultimately have a: "sum_errors after_first_run = sum_errors ?P
      + sum_list (run_errors 30 FORWARD 10 False False [pass 0 0.0, pass 10 20.0])"
    by simp
  have b: "sum_list (run_errors 30 FORWARD 10 False False [pass 0 0.0, pass 10 20.0]) = 30"
    by (simp add: pass_simps Let_def)
  show ?thesis unfolding f using a b by simp
qed

section \<open>A reversal without a reading\<close>

text \<open>
  C2 as stated fails when the board cannot be read. The board holds +0.5 and fails 20
  reads; \<open>get_current_power_level\<close> answers 0.0, so the jump test compares -0.2 with
  0.0: \<open>set_motor_power(-0.2)\<close> logs nothing and sends -0.2 to the board.
\<close>

theorem reversal_accepted_without_reading_counterexample:
  "board_power (bench 1 0.5 (replicate 20 True)) = 0.5
   \<and> \<bar>board_power (bench 1 0.5 (replicate 20 True)) - (- 0.2)\<bar> > 0.3
   \<and> isl (set_motor_power (- 0.2) (bench 1 0.5 (replicate 20 True))) = False
   \<and> error_log (projr (set_motor_power (- 0.2) (bench 1 0.5 (replicate 20 True)))) = []
   \<and> tb_commands (tb (projr (set_motor_power (- 0.2) (bench 1 0.5 (replicate 20 True)))))
       = [(1, - 0.2)]
   \<and> board_power (projr (set_motor_power (- 0.2) (bench 1 0.5 (replicate 20 True)))) = - 0.2"
proof -
  let ?W = "bench 1 0.5 (replicate 20 True)"
  let ?w1 = "?W\<lparr>tb := (tb ?W)\<lparr>tb_reads := tb_reads (tb ?W) + 20, tb_faults := []\<rparr>,
                slept := slept ?W + 0.1\<rparr>"
  have g: "get_current_power_level ?W = (0.0, ?w1)"
    by (rule get_current_power_level_faults) (simp add: bench_simps)
  have lim: "\<bar>- 0.2 :: real\<bar> \<le> motor_power_limit (motor ?W)"
    by (simp add: bench_simps port_motor_simps)
  have j1: "\<not> (\<bar>0.0 - (- 0.2 :: real)\<bar> > 0.3 \<and> (0.0::real) > 0 \<and> (- 0.2 :: real) < 0)"
    and j2: "\<not> (\<bar>0.0 - (- 0.2 :: real)\<bar> > 0.3 \<and> (0.0::real) < 0 \<and> (- 0.2 :: real) > 0)"
    by simp_all
  have r: "max_power_ratio (motor ?W) = Some 1" by (simp add: bench_simps)
  note a = set_motor_power_accepted [OF g lim j1 j2 r]
  show ?thesis
    unfolding a
    by (simp add: bench_simps port_motor_simps set_board_frame board_power_set_board)
qed

section \<open>Ramps ahead and astern\<close>










end
